theory Spec2Isabelle
  imports Complex_Main
begin

section \<open>The actor-critic agent of rltorch/agents/core.py\<close>

text \<open>
  The development embeds \<^verbatim>\<open>ACAgent\<close> (src/rltorch/agents/core.py). Torch floats are
  modelled as \<^typ>\<open>real\<close>: the statements are about the arithmetic the code performs,
  not about rounding. A tensor over the workers is a \<^typ>\<open>real list\<close>; a tensor over
  timesteps and workers is a list of such rows. Python exceptions are values of
  \<open>error\<close>; a method that mutates \<^verbatim>\<open>self\<close> returns the new agent, and when it
  raises it returns the error together with the agent as it was left at that moment,
  since the mutations made before the raise stay in place.
\<close>

datatype error = AttributeError | IndexError | RuntimeError | TypeError | ValueError | SinkError

definition bindE :: "'e + 'x \<Rightarrow> ('x \<Rightarrow> 'e + 'y) \<Rightarrow> 'e + 'y" where
  "bindE m f = (case m of Inl e \<Rightarrow> Inl e | Inr x \<Rightarrow> f x)"

subsection \<open>Telemetry sink\<close>

text \<open>
  \<^verbatim>\<open>self.writer\<close> is a tensorboardX \<^verbatim>\<open>SummaryWriter\<close>. Its state is the list of the
  calls it has accepted, oldest first. Whether a call raises is a parameter
  (\<open>sink_raises\<close> of the configuration), which may depend on that history and on the call.
\<close>

datatype 'a event =
    AddScalar string real nat
  | AddHistogramActions string "'a list" nat
  | AddHistogramRewards string "real list" nat

text \<open>The decimal rendering of a worker index inside an f-string.\<close>

definition digit_char :: "nat \<Rightarrow> char" where
  "digit_char d = ''0123456789'' ! d"

fun str_nat :: "nat \<Rightarrow> string" where
  "str_nat n = (if n < 10 then [digit_char n] else str_nat (n div 10) @ [digit_char (n mod 10)])"

declare str_nat.simps [simp del]

subsection \<open>Experience store\<close>

text \<open>
  Modelled from the spec: \<^verbatim>\<open>ACMemory\<close> (rltorch/memories) is not among the sources. The
  spec gives its interface: \<^verbatim>\<open>append(observations, actions, rewards, terminals,
  training_flag)\<close> appends a transition, \<^verbatim>\<open>store_value_log_prob(value, log_prob,
  entropy)\<close> caches the three statistics, \<^verbatim>\<open>sample()\<close> returns the transition batch,
  \<^verbatim>\<open>reset()\<close> empties the store. The fields are the attributes that
  \<^verbatim>\<open>aggregate_experiences\<close> reads from the batch, one entry per timestep, each entry
  over the workers; a cached value is a vector per worker, summed by the caller.
\<close>

record ('o, 'a) ACMemory =
  mem_obs :: "'o list list"
  mem_action :: "'a list list"
  mem_reward :: "real list list"
  mem_terminal :: "bool list list"
  mem_value :: "real list list list"
  mem_log_prob :: "real list list"
  mem_entropy :: "real list list"

text \<open>Modelled from the spec: the store after \<^verbatim>\<open>reset()\<close>, and as constructed.\<close>

definition mem_reset :: "('o, 'a) ACMemory" where
  "mem_reset = \<lparr>mem_obs = [], mem_action = [], mem_reward = [], mem_terminal = [],
                mem_value = [], mem_log_prob = [], mem_entropy = []\<rparr>"

text \<open>Modelled from the spec: \<^verbatim>\<open>append\<close> adds the transition; the training flag is
  accepted and the spec gives it no effect.\<close>

definition mem_append ::
  "('o, 'a) ACMemory \<Rightarrow> 'o list \<Rightarrow> 'a list \<Rightarrow> real list \<Rightarrow> bool list \<Rightarrow> bool \<Rightarrow> ('o, 'a) ACMemory" where
  "mem_append m obs action reward terminal training =
     m\<lparr>mem_obs := mem_obs m @ [obs], mem_action := mem_action m @ [action],
       mem_reward := mem_reward m @ [reward], mem_terminal := mem_terminal m @ [terminal]\<rparr>"

text \<open>Modelled from the spec: \<^verbatim>\<open>store_value_log_prob\<close> caches the statistics of the
  timestep being collected.\<close>

definition store_value_log_prob ::
  "('o, 'a) ACMemory \<Rightarrow> real list list \<Rightarrow> real list \<Rightarrow> real list \<Rightarrow> ('o, 'a) ACMemory" where
  "store_value_log_prob m v lp ent =
     m\<lparr>mem_value := mem_value m @ [v], mem_log_prob := mem_log_prob m @ [lp],
       mem_entropy := mem_entropy m @ [ent]\<rparr>"

text \<open>Modelled from the spec: \<^verbatim>\<open>sample()\<close> hands out the stored batch.\<close>

definition mem_sample :: "('o, 'a) ACMemory \<Rightarrow> ('o, 'a) ACMemory" where
  "mem_sample m = m"

subsection \<open>Configuration and agent state\<close>

text \<open>
  The attributes of \<^verbatim>\<open>self\<close> that never change after \<^verbatim>\<open>__init__\<close>, with the external
  collaborators as functions. \<open>smooth_length\<close> is a natural number: the docstring types it
  as int, and a negative one makes \<^verbatim>\<open>deque(maxlen=...)\<close> raise inside \<^verbatim>\<open>__init__\<close>
  (line 131), so no agent exists with it. \<open>get_recent_state\<close> is the store's window
  stacking, which the spec leaves external and free of side effects. \<open>dist_sample\<close>
  threads the state of the random generator.
\<close>

record ('o, 'a, 's, 'd, 'g) config =
  processor :: "('o \<Rightarrow> 'o) option"
  smooth_length :: nat
  discount :: real
  gae_lambda :: real
  ac_model :: "'s \<Rightarrow> 'd \<times> real list list"
  dist_sample :: "'d \<Rightarrow> 'g \<Rightarrow> 'a list \<times> 'g"
  dist_log_prob :: "'d \<Rightarrow> 'a list \<Rightarrow> real list"
  dist_entropy :: "'d \<Rightarrow> real list"
  get_recent_state :: "('o, 'a) ACMemory \<Rightarrow> 'o list \<Rightarrow> 's"
  sink_raises :: "'a event list \<Rightarrow> 'a event \<Rightarrow> bool"

text \<open>
  The mutable attributes. The \<^verbatim>\<open>defaultdict\<close>s keyed by the worker index are total
  functions whose value at an untouched key is the default. \<open>new_obs\<close> is \<open>None\<close> until
  \<^verbatim>\<open>set_new_obs\<close> has created the attribute.
\<close>

record ('o, 'a, 'g) agent =
  memory :: "('o, 'a) ACMemory"
  new_obs :: "'o list option"
  rng :: 'g
  reward_record :: "nat \<Rightarrow> real list"
  ep_rewards :: "nat \<Rightarrow> real list"
  ep_actions :: "nat \<Rightarrow> 'a list"
  episode_steps :: "nat \<Rightarrow> nat"
  record_step :: nat
  writer :: "'a event list"

text \<open>The agent as \<^verbatim>\<open>__init__\<close> leaves it (lines 47-48, 118, 128-136).\<close>

definition init_agent :: "'g \<Rightarrow> ('o, 'a, 'g) agent" where
  "init_agent g = \<lparr>memory = mem_reset, new_obs = None, rng = g,
     reward_record = (\<lambda>_. []), ep_rewards = (\<lambda>_. []), ep_actions = (\<lambda>_. []),
     episode_steps = (\<lambda>_. 0), record_step = 0, writer = []\<rparr>"

subsection \<open>record\<close>

text \<open>\<^verbatim>\<open>deque.append\<close> on a deque with \<^verbatim>\<open>maxlen\<close>: the item is added on the right and,
  if the deque is then longer than \<^verbatim>\<open>maxlen\<close>, the leftmost item is dropped.\<close>

definition deque_append :: "nat \<Rightarrow> 'x list \<Rightarrow> 'x \<Rightarrow> 'x list" where
  "deque_append maxlen xs x = (let ys = xs @ [x] in if maxlen < length ys then tl ys else ys)"

text \<open>A call of \<^verbatim>\<open>self.writer\<close>: it raises, or the call is added to the log.\<close>

definition emit ::
  "('o, 'a, 's, 'd, 'g) config \<Rightarrow> 'a event \<Rightarrow> ('o, 'a, 'g) agent
     \<Rightarrow> (error \<times> ('o, 'a, 'g) agent) + ('o, 'a, 'g) agent" where
  "emit cfg e ag =
     (if sink_raises cfg (writer ag) e then Inl (SinkError, ag)
      else Inr (ag\<lparr>writer := writer ag @ [e]\<rparr>))"

text \<open>The three writer calls of lines 173-184 for worker \<open>i\<close>, from its episode lists
  and its episode index.\<close>

definition summary_events :: "nat \<Rightarrow> real list \<Rightarrow> 'a list \<Rightarrow> nat \<Rightarrow> 'a event list" where
  "summary_events i rs as k =
     [AddScalar (''data/episode_reward_sum_'' @ str_nat i) (sum_list rs) k,
      AddHistogramActions (''data/episode_action_'' @ str_nat i) as k,
      AddHistogramRewards (''data/episode_reward_dist_'' @ str_nat i) rs k]"

text \<open>The three appends of lines 169-171 for worker \<open>i\<close>.\<close>

definition appended ::
  "('o, 'a, 's, 'd, 'g) config \<Rightarrow> 'a list \<Rightarrow> real list \<Rightarrow> nat
     \<Rightarrow> ('o, 'a, 'g) agent \<Rightarrow> ('o, 'a, 'g) agent" where
  "appended cfg action reward i ag =
     ag\<lparr>reward_record := (reward_record ag)
           (i := deque_append (smooth_length cfg) (reward_record ag i) (reward ! i)),
        ep_rewards := (ep_rewards ag)(i := ep_rewards ag i @ [reward ! i]),
        ep_actions := (ep_actions ag)(i := ep_actions ag i @ [action ! i])\<rparr>"

text \<open>The body of the loop over the workers (lines 169-189). \<^verbatim>\<open>reward[i]\<close> is read
  first and \<^verbatim>\<open>terminal[i]\<close> after the three appends; either raises IndexError when
  the array is shorter than \<^verbatim>\<open>action\<close>.\<close>

definition record_worker ::
  "('o, 'a, 's, 'd, 'g) config \<Rightarrow> 'a list \<Rightarrow> real list \<Rightarrow> bool list \<Rightarrow> nat
     \<Rightarrow> ('o, 'a, 'g) agent \<Rightarrow> (error \<times> ('o, 'a, 'g) agent) + ('o, 'a, 'g) agent" where
  "record_worker cfg action reward terminal i ag =
     (if length reward \<le> i then Inl (IndexError, ag)
      else
        let ag1 = appended cfg action reward i ag in
        if length terminal \<le> i then Inl (IndexError, ag1)
        else if terminal ! i then
          bindE (emit cfg (AddScalar (''data/episode_reward_sum_'' @ str_nat i)
                             (sum_list (ep_rewards ag1 i)) (episode_steps ag1 i)) ag1)
          (\<lambda>ag2. bindE (emit cfg (AddHistogramActions (''data/episode_action_'' @ str_nat i)
                             (ep_actions ag2 i) (episode_steps ag2 i)) ag2)
          (\<lambda>ag3. bindE (emit cfg (AddHistogramRewards (''data/episode_reward_dist_'' @ str_nat i)
                             (ep_rewards ag3 i) (episode_steps ag3 i)) ag3)
          (\<lambda>ag4. Inr (ag4\<lparr>episode_steps := (episode_steps ag4)(i := episode_steps ag4 i + 1),
                          ep_rewards := (ep_rewards ag4)(i := []),
                          ep_actions := (ep_actions ag4)(i := [])\<rparr>))))
        else Inr ag1)"

text \<open>\<^verbatim>\<open>for i in range(n_workers)\<close>, stopping at the first exception.\<close>

fun record_loop ::
  "('o, 'a, 's, 'd, 'g) config \<Rightarrow> 'a list \<Rightarrow> real list \<Rightarrow> bool list \<Rightarrow> nat list
     \<Rightarrow> ('o, 'a, 'g) agent \<Rightarrow> (error \<times> ('o, 'a, 'g) agent) + ('o, 'a, 'g) agent" where
  "record_loop cfg action reward terminal [] ag = Inr ag"
| "record_loop cfg action reward terminal (i # is) ag =
     bindE (record_worker cfg action reward terminal i ag)
           (\<lambda>ag'. record_loop cfg action reward terminal is ag')"

text \<open>\<^verbatim>\<open>ACAgent.record\<close> (lines 166-190); \<open>record\<close> is a keyword of Isabelle.\<close>

definition record_agent ::
  "('o, 'a, 's, 'd, 'g) config \<Rightarrow> ('o, 'a, 'g) agent \<Rightarrow> 'a list \<Rightarrow> real list \<Rightarrow> bool list
     \<Rightarrow> (error \<times> ('o, 'a, 'g) agent) + ('o, 'a, 'g) agent" where
  "record_agent cfg ag action reward terminal =
     bindE (record_loop cfg action reward terminal [0..<length action] ag)
           (\<lambda>ag'. Inr (ag'\<lparr>record_step := record_step ag' + 1\<rparr>))"

subsection \<open>predict, observe, set_new_obs, get_newest_state\<close>

text \<open>\<^verbatim>\<open>ACAgent.predict\<close> (lines 147-159). The processor is applied only when there is
  one. The cached statistics are stored only when \<open>training\<close> is true. The conversions to
  and from tensors are the identity of the model.\<close>

definition predict ::
  "('o, 'a, 's, 'd, 'g) config \<Rightarrow> ('o, 'a, 'g) agent \<Rightarrow> 'o list \<Rightarrow> bool
     \<Rightarrow> 'a list \<times> ('o, 'a, 'g) agent" where
  "predict cfg ag obs training =
     (let obs1 = (case processor cfg of None \<Rightarrow> obs | Some p \<Rightarrow> map p obs);
          state = get_recent_state cfg (memory ag) obs1;
          (dist, value) = ac_model cfg state;
          (action, g) = dist_sample cfg dist (rng ag);
          ag1 = ag\<lparr>rng := g\<rparr>
      in if training then
           (action, ag1\<lparr>memory := store_value_log_prob (memory ag1) value
                                       (dist_log_prob cfg dist action) (dist_entropy cfg dist)\<rparr>)
         else (action, ag1))"

text \<open>\<^verbatim>\<open>ACAgent.observe\<close> (lines 161-164). Line 162 reads \<^verbatim>\<open>self.processor.process\<close>
  once per observation with no test of \<^verbatim>\<open>self.processor\<close>: with no processor the
  first observation raises AttributeError, and an empty \<open>obs\<close> never reaches the attribute.\<close>

definition observe ::
  "('o, 'a, 's, 'd, 'g) config \<Rightarrow> ('o, 'a, 'g) agent \<Rightarrow> 'o list \<Rightarrow> 'a list \<Rightarrow> real list
     \<Rightarrow> bool list \<Rightarrow> 'i \<Rightarrow> bool \<Rightarrow> (error \<times> ('o, 'a, 'g) agent) + ('o, 'a, 'g) agent" where
  "observe cfg ag obs action reward terminal info training =
     bindE (case processor cfg of
              None \<Rightarrow> if obs = [] then Inr [] else Inl (AttributeError, ag)
            | Some p \<Rightarrow> Inr (map p obs))
       (\<lambda>obs1. record_agent cfg
                 (ag\<lparr>memory := mem_append (memory ag) obs1 action reward terminal training\<rparr>)
                 action reward terminal)"

text \<open>\<^verbatim>\<open>ACAgent.set_new_obs\<close> (lines 192-195) and \<^verbatim>\<open>ACAgent.get_newest_state\<close>
  (lines 197-198); the latter raises AttributeError when \<^verbatim>\<open>self.new_obs\<close> was never
  set.\<close>

definition set_new_obs ::
  "('o, 'a, 's, 'd, 'g) config \<Rightarrow> ('o, 'a, 'g) agent \<Rightarrow> 'o list \<Rightarrow> ('o, 'a, 'g) agent" where
  "set_new_obs cfg ag obs =
     ag\<lparr>new_obs := Some (case processor cfg of None \<Rightarrow> obs | Some p \<Rightarrow> map p obs)\<rparr>"

definition get_newest_state ::
  "('o, 'a, 's, 'd, 'g) config \<Rightarrow> ('o, 'a, 'g) agent \<Rightarrow> error + 's" where
  "get_newest_state cfg ag =
     (case new_obs ag of None \<Rightarrow> Inl AttributeError
      | Some obs \<Rightarrow> Inr (get_recent_state cfg (memory ag) obs))"

subsection \<open>Tensor operations\<close>

text \<open>Indexing with a non-negative index, and with \<open>-1\<close>; both raise IndexError out of
  range.\<close>

definition get_row :: "'x list \<Rightarrow> nat \<Rightarrow> error + 'x" where
  "get_row xs t = (if t < length xs then Inr (xs ! t) else Inl IndexError)"

definition last_row :: "'x list \<Rightarrow> error + 'x" where
  "last_row xs = (if xs = [] then Inl IndexError else Inr (last xs))"

text \<open>An elementwise operation on two rows, with torch's broadcasting of a row of
  length one; other length mismatches raise.\<close>

definition bcast :: "(real \<Rightarrow> real \<Rightarrow> real) \<Rightarrow> real list \<Rightarrow> real list \<Rightarrow> error + real list" where
  "bcast f xs ys =
     (if length xs = length ys then Inr (map2 f xs ys)
      else if length xs = 1 then Inr (map (f (hd xs)) ys)
      else if length ys = 1 then Inr (map (\<lambda>x. f x (hd ys)) xs)
      else Inl RuntimeError)"

text \<open>\<^verbatim>\<open>np.array\<close> of a list of rows: the rows must have one length.\<close>

definition np_array :: "'x list list \<Rightarrow> error + 'x list list" where
  "np_array rows =
     (if list_all (\<lambda>r. length r = length (hd rows)) rows then Inr rows else Inl ValueError)"

text \<open>\<^verbatim>\<open>torch.stack\<close>: the list must be non-empty and its tensors of one shape.\<close>

definition torch_stack :: "('x \<Rightarrow> 'sh) \<Rightarrow> 'x list \<Rightarrow> error + 'x list" where
  "torch_stack shape xs =
     (if xs = [] then Inl RuntimeError
      else if list_all (\<lambda>x. shape x = shape (hd xs)) xs then Inr xs
      else Inl RuntimeError)"

subsection \<open>aggregate_experiences\<close>

text \<open>Lines 201-218: the batch as tensors. The mask is \<open>1 - terminal\<close>; the cached
  values are summed over their last axis.\<close>

definition read_rollout ::
  "('o, 'a) ACMemory
     \<Rightarrow> error + (real list list \<times> real list list \<times> real list list \<times> real list list \<times> real list list)" where
  "read_rollout experiences =
     bindE (np_array (mem_reward experiences)) (\<lambda>rewards.
     bindE (np_array (mem_terminal experiences)) (\<lambda>terminals.
     let masks = map (map (\<lambda>b. 1 - (if b then 1 else 0))) terminals in
     bindE (torch_stack (map length) (mem_value experiences)) (\<lambda>stacked.
     let values = map (map sum_list) stacked in
     bindE (torch_stack length (mem_log_prob experiences)) (\<lambda>log_probs.
     bindE (torch_stack length (mem_entropy experiences)) (\<lambda>entropies.
     Inr (rewards, masks, values, log_probs, entropies))))))"

text \<open>Lines 224-225, for one \<open>t\<close>: \<^verbatim>\<open>rewards[t] + values[t + 1] * masks[t] - values[t]\<close>.\<close>

definition delta_step ::
  "real list list \<Rightarrow> real list list \<Rightarrow> real list list \<Rightarrow> nat \<Rightarrow> error + real list" where
  "delta_step rewards values masks t =
     bindE (get_row rewards t) (\<lambda>r.
     bindE (get_row values (t + 1)) (\<lambda>v1.
     bindE (get_row masks t) (\<lambda>m.
     bindE (bcast (*) v1 m) (\<lambda>vm.
     bindE (bcast (+) r vm) (\<lambda>target.
     bindE (get_row values t) (\<lambda>v.
     bcast (-) target v))))))"

text \<open>Lines 222-226: \<^verbatim>\<open>for t in range(T - 1)\<close>.\<close>

fun deltas_loop ::
  "real list list \<Rightarrow> real list list \<Rightarrow> real list list \<Rightarrow> nat list \<Rightarrow> real list list
     \<Rightarrow> error + real list list" where
  "deltas_loop rewards values masks [] deltas = Inr deltas"
| "deltas_loop rewards values masks (t # ts) deltas =
     bindE (delta_step rewards values masks t)
           (\<lambda>delta. deltas_loop rewards values masks ts (deltas @ [delta]))"

text \<open>Lines 220-234: the TD residuals. The last one uses the value of the newest state,
  computed by the model from \<^verbatim>\<open>get_newest_state\<close>.\<close>

definition td_residuals ::
  "('o, 'a, 's, 'd, 'g) config \<Rightarrow> ('o, 'a, 'g) agent \<Rightarrow> real list list \<Rightarrow> real list list
     \<Rightarrow> real list list \<Rightarrow> error + real list list" where
  "td_residuals cfg ag rewards values masks =
     (let T = length rewards in
      bindE (deltas_loop rewards values masks [0..<T - 1] []) (\<lambda>deltas.
      bindE (get_newest_state cfg ag) (\<lambda>new_state.
      let new_value = map sum_list (snd (ac_model cfg new_state)) in
      bindE (last_row rewards) (\<lambda>r.
      bindE (last_row masks) (\<lambda>m.
      bindE (bcast (*) new_value m) (\<lambda>vm.
      bindE (bcast (+) r vm) (\<lambda>new_target.
      bindE (last_row values) (\<lambda>v.
      bindE (bcast (-) new_target v) (\<lambda>new_delta.
      Inr (deltas @ [new_delta]))))))))))"

text \<open>The accumulator \<^verbatim>\<open>adv\<close> starts as the float \<open>0.\<close> and is a tensor from the first
  addition on; the later additions are in place, so they keep its shape.\<close>

datatype acc = Num real | Tens "real list"

definition acc_add :: "acc \<Rightarrow> real list \<Rightarrow> error + acc" where
  "acc_add adv x =
     (case adv of
        Num c \<Rightarrow> Inr (Tens (map (\<lambda>v. c + v) x))
      | Tens ys \<Rightarrow>
          if length x = length ys then Inr (Tens (map2 (+) ys x))
          else if length x = 1 then Inr (Tens (map (\<lambda>y. y + hd x) ys))
          else Inl RuntimeError)"

text \<open>Lines 242-244: \<^verbatim>\<open>for t in range(t_st, T)\<close>; the float \<^verbatim>\<open>power\<close> counts 0., 1., 2., ...
  and is the natural number \<open>pw\<close>\<close>

fun adv_inner :: "real \<Rightarrow> real list list \<Rightarrow> nat list \<Rightarrow> acc \<Rightarrow> nat \<Rightarrow> error + acc" where
  "adv_inner decay_rate deltas [] adv pw = Inr adv"
| "adv_inner decay_rate deltas (t # ts) adv pw =
     bindE (get_row deltas t) (\<lambda>d.
     bindE (acc_add adv (map (\<lambda>v. v * decay_rate ^ pw) d)) (\<lambda>adv'.
     adv_inner decay_rate deltas ts adv' (pw + 1)))"

text \<open>Lines 239-245: \<^verbatim>\<open>for t_st in range(T)\<close>.\<close>

fun adv_outer :: "real \<Rightarrow> real list list \<Rightarrow> nat \<Rightarrow> nat list \<Rightarrow> acc list \<Rightarrow> error + acc list" where
  "adv_outer decay_rate deltas T [] advs = Inr advs"
| "adv_outer decay_rate deltas T (t_st # rest) advs =
     bindE (adv_inner decay_rate deltas [t_st..<T] (Num 0) 0)
           (\<lambda>adv. adv_outer decay_rate deltas T rest (advs @ [adv]))"

text \<open>Line 246: \<^verbatim>\<open>torch.stack(advs)\<close>; a float among the entries is a TypeError.\<close>

fun tensor_rows :: "acc list \<Rightarrow> error + real list list" where
  "tensor_rows [] = Inr []"
| "tensor_rows (Num c # as) = Inl TypeError"
| "tensor_rows (Tens xs # as) = bindE (tensor_rows as) (\<lambda>rows. Inr (xs # rows))"

definition stack_advs :: "acc list \<Rightarrow> error + real list list" where
  "stack_advs advs = bindE (tensor_rows advs) (torch_stack length)"

text \<open>Lines 236-246.\<close>

definition gae_advantages :: "real \<Rightarrow> real list list \<Rightarrow> nat \<Rightarrow> error + real list list" where
  "gae_advantages decay_rate deltas T =
     bindE (adv_outer decay_rate deltas T [0..<T] []) stack_advs"

text \<open>\<^verbatim>\<open>ACAgent.aggregate_experiences\<close> (lines 200-248). Nothing of the agent changes
  before the reset of the store in line 247, so an exception leaves the agent as it was.\<close>

definition aggregate_experiences ::
  "('o, 'a, 's, 'd, 'g) config \<Rightarrow> ('o, 'a, 'g) agent
     \<Rightarrow> error + ((real list list \<times> real list list \<times> real list list) \<times> ('o, 'a, 'g) agent)" where
  "aggregate_experiences cfg ag =
     bindE (read_rollout (mem_sample (memory ag))) (\<lambda>(rewards, masks, values, log_probs, entropies).
     bindE (td_residuals cfg ag rewards values masks) (\<lambda>deltas.
     bindE (gae_advantages (discount cfg * gae_lambda cfg) deltas (length rewards)) (\<lambda>advs.
     Inr ((advs, log_probs, entropies), ag\<lparr>memory := mem_reset\<rparr>))))"

text \<open>The TD residuals that a call of \<^verbatim>\<open>aggregate_experiences\<close> computes on its way.\<close>

definition rollout_deltas ::
  "('o, 'a, 's, 'd, 'g) config \<Rightarrow> ('o, 'a, 'g) agent \<Rightarrow> error + real list list" where
  "rollout_deltas cfg ag =
     bindE (read_rollout (mem_sample (memory ag))) (\<lambda>(rewards, masks, values, log_probs, entropies).
     td_residuals cfg ag rewards values masks)"

subsection \<open>Vocabulary for the statements about record\<close>

text \<open>What a completed loop body does for worker \<open>i\<close>, in closed form.\<close>

definition worker_done ::
  "('o, 'a, 's, 'd, 'g) config \<Rightarrow> 'a list \<Rightarrow> real list \<Rightarrow> bool list \<Rightarrow> nat
     \<Rightarrow> ('o, 'a, 'g) agent \<Rightarrow> ('o, 'a, 'g) agent" where
  "worker_done cfg a r tm i ag =
     (if tm ! i then
        (appended cfg a r i ag)\<lparr>ep_rewards := (ep_rewards ag)(i := []),
           ep_actions := (ep_actions ag)(i := []),
           episode_steps := (episode_steps ag)(i := episode_steps ag i + 1),
           writer := writer ag @ summary_events i (ep_rewards ag i @ [r ! i])
                       (ep_actions ag i @ [a ! i]) (episode_steps ag i)\<rparr>
      else appended cfg a r i ag)"

text \<open>The writer calls one \<^verbatim>\<open>record\<close> call makes for worker \<open>j\<close>, from the agent as
  it was before the call: the episode summary when the worker terminates, nothing
  otherwise.\<close>

definition emitted :: "'a list \<Rightarrow> real list \<Rightarrow> bool list \<Rightarrow> ('o, 'a, 'g) agent \<Rightarrow> nat \<Rightarrow> 'a event list" where
  "emitted a r tm ag j =
     (if tm ! j then summary_events j (ep_rewards ag j @ [r ! j]) (ep_actions ag j @ [a ! j])
                       (episode_steps ag j)
      else [])"

text \<open>The agent a call leaves behind, whether it returned or raised.\<close>

definition agent_after ::
  "(error \<times> ('o, 'a, 'g) agent) + ('o, 'a, 'g) agent \<Rightarrow> ('o, 'a, 'g) agent" where
  "agent_after res = (case res of Inl (e, ag) \<Rightarrow> ag | Inr ag \<Rightarrow> ag)"

text \<open>A sequence of \<^verbatim>\<open>record\<close> calls on one agent. \<open>run_records\<close> goes on after a
  call that raised (a caller may catch the exception); \<open>records_seq\<close> stops at the first
  exception.\<close>

fun run_records ::
  "('o, 'a, 's, 'd, 'g) config \<Rightarrow> ('a list \<times> real list \<times> bool list) list
     \<Rightarrow> ('o, 'a, 'g) agent \<Rightarrow> ('o, 'a, 'g) agent" where
  "run_records cfg [] ag = ag"
| "run_records cfg ((a, r, tm) # calls) ag =
     run_records cfg calls (agent_after (record_agent cfg ag a r tm))"

fun records_seq ::
  "('o, 'a, 's, 'd, 'g) config \<Rightarrow> ('a list \<times> real list \<times> bool list) list
     \<Rightarrow> ('o, 'a, 'g) agent \<Rightarrow> (error \<times> ('o, 'a, 'g) agent) + ('o, 'a, 'g) agent" where
  "records_seq cfg [] ag = Inr ag"
| "records_seq cfg ((a, r, tm) # calls) ag =
     bindE (record_agent cfg ag a r tm) (records_seq cfg calls)"

text \<open>The rewards of worker \<open>i\<close> in a sequence of calls, oldest first.\<close>

definition rewards_seen :: "nat \<Rightarrow> ('a list \<times> real list \<times> bool list) list \<Rightarrow> real list" where
  "rewards_seen i calls =
     concat (map (\<lambda>(a, r, tm). if i < length a then [r ! i] else []) calls)"

definition window_ok :: "('o, 'a, 's, 'd, 'g) config \<Rightarrow> ('o, 'a, 'g) agent \<Rightarrow> bool" where
  "window_ok cfg ag = (\<forall>i. length (reward_record ag i) \<le> smooth_length cfg)"

text \<open>The last \<open>n\<close> elements of a list.\<close>

definition last_n :: "nat \<Rightarrow> 'x list \<Rightarrow> 'x list" where
  "last_n n xs = drop (length xs - n) xs"

subsection \<open>Concrete configurations\<close>

text \<open>A small configuration for concrete runs: no processor, a window of two rewards,
  a model that values every worker at 0, and a sink that accepts every call or refuses
  every call.\<close>

definition demo_cfg :: "bool \<Rightarrow> (nat, nat, nat list, unit, unit) config" where
  "demo_cfg failing = \<lparr>processor = None, smooth_length = 2, discount = 1/2, gae_lambda = 1,
     ac_model = (\<lambda>s. ((), map (\<lambda>_. [0]) s)), dist_sample = (\<lambda>d g. ([], g)),
     dist_log_prob = (\<lambda>d a. map (\<lambda>_. 0) a), dist_entropy = (\<lambda>d. []),
     get_recent_state = (\<lambda>m obs. obs), sink_raises = (\<lambda>h e. failing)\<rparr>"

definition demo_calls :: "(nat list \<times> real list \<times> bool list) list" where
  "demo_calls = [([7], [1], [False]), ([7], [2], [True]), ([7], [3], [False])]"

subsection \<open>Vocabulary for the statements about aggregate_experiences\<close>

text \<open>A completed rollout of \<open>T\<close> timesteps and \<open>n\<close> workers: the store holds
  \<open>T\<close> entries of every kind, at least one, each over the \<open>n\<close> workers; a cached value has
  \<open>k\<close> components per worker.\<close>

definition complete_rollout :: "nat \<Rightarrow> nat \<Rightarrow> nat \<Rightarrow> ('o, 'a) ACMemory \<Rightarrow> bool" where
  "complete_rollout T n k m \<longleftrightarrow>
     0 < T \<and> length (mem_reward m) = T \<and> length (mem_terminal m) = T \<and> length (mem_value m) = T
     \<and> length (mem_log_prob m) = T \<and> length (mem_entropy m) = T
     \<and> list_all (\<lambda>r. length r = n) (mem_reward m)
     \<and> list_all (\<lambda>r. length r = n) (mem_terminal m)
     \<and> list_all (\<lambda>v. map length v = replicate n k) (mem_value m)
     \<and> list_all (\<lambda>r. length r = n) (mem_log_prob m)
     \<and> list_all (\<lambda>r. length r = n) (mem_entropy m)"

text \<open>The value \<open>V_T\<close> of the newest state: line 231 on the state of line 228.\<close>

definition bootstrap_value :: "('o, 'a, 's, 'd, 'g) config \<Rightarrow> ('o, 'a, 'g) agent \<Rightarrow> real list" where
  "bootstrap_value cfg ag =
     (case new_obs ag of None \<Rightarrow> []
      | Some obs \<Rightarrow> map sum_list (snd (ac_model cfg (get_recent_state cfg (memory ag) obs))))"

text \<open>The tensors \<^verbatim>\<open>masks\<close> and \<^verbatim>\<open>values\<close> of lines 205-211, as functions of the store.\<close>

definition masks_of :: "('o, 'a) ACMemory \<Rightarrow> real list list" where
  "masks_of m = map (map (\<lambda>b. 1 - (if b then 1 else 0))) (mem_terminal m)"

definition values_of :: "('o, 'a) ACMemory \<Rightarrow> real list list" where
  "values_of m = map (map sum_list) (mem_value m)"

text \<open>The row \<open>r + v1 * m - v\<close>, elementwise on rows of one length.\<close>

definition delta_row :: "real list \<Rightarrow> real list \<Rightarrow> real list \<Rightarrow> real list \<Rightarrow> real list" where
  "delta_row r v1 m v = map2 (-) (map2 (+) r (map2 (*) v1 m)) v"

text \<open>Closed form of the list \<^verbatim>\<open>deltas\<close> of a completed rollout, used in the proofs.\<close>

definition deltas_of :: "('o, 'a, 's, 'd, 'g) config \<Rightarrow> ('o, 'a, 'g) agent \<Rightarrow> real list list" where
  "deltas_of cfg ag =
     (let m = memory ag; T = length (mem_reward m) in
      map (\<lambda>t. delta_row (mem_reward m ! t) (values_of m ! Suc t) (masks_of m ! t) (values_of m ! t))
          [0..<T - 1]
      @ [delta_row (last (mem_reward m)) (bootstrap_value cfg ag) (last (masks_of m)) (last (values_of m))])"

text \<open>Closed form of one entry of \<^verbatim>\<open>advs\<close>, used in the proofs.\<close>

definition adv_row :: "real \<Rightarrow> real list list \<Rightarrow> nat \<Rightarrow> nat \<Rightarrow> nat \<Rightarrow> real list" where
  "adv_row decay_rate deltas T n t_st =
     map (\<lambda>w. \<Sum>t = t_st..<T. deltas ! t ! w * decay_rate ^ (t - t_st)) [0..<n]"

text \<open>An agent holding a completed rollout of two timesteps of one worker, whose episode
  ends at the first timestep, with the newest observation set.\<close>

definition demo_agent :: "(nat, nat, unit) agent" where
  "demo_agent = (init_agent ())\<lparr>memory :=
       \<lparr>mem_obs = [[0], [0]], mem_action = [[7], [7]], mem_reward = [[0], [1]],
        mem_terminal = [[True], [False]], mem_value = [[[0]], [[0]]],
        mem_log_prob = [[0], [0]], mem_entropy = [[0], [0]]\<rparr>,
     new_obs := Some [0]\<rparr>"

subsection \<open>The concrete scenario of the spec\<close>

text \<open>Section 8 of the spec: two workers, horizon 3, discount 0.99, \<open>gae_lambda\<close> 0.95,
  rewards \<open>[1, 1, 1]\<close> and \<open>[0, 0, 5]\<close>, the second worker terminating at the last step,
  cached values \<open>[0.5, 0.6, 0.7]\<close> and \<open>[0.1, 0.1, 0.1]\<close>, bootstrap values
  \<open>[0.8, 0.0]\<close>.\<close>

definition scenario_cfg :: "(nat, nat, nat list, unit, unit) config" where
  "scenario_cfg = (demo_cfg False)\<lparr>discount := 99 / 100, gae_lambda := 95 / 100,
     ac_model := (\<lambda>s. ((), [[4 / 5], [0]]))\<rparr>"

definition scenario_agent :: "(nat, nat, unit) agent" where
  "scenario_agent = (init_agent ())\<lparr>memory :=
       \<lparr>mem_obs = [[0, 0], [0, 0], [0, 0]], mem_action = [[7, 7], [7, 7], [7, 7]],
        mem_reward = [[1, 0], [1, 0], [1, 5]],
        mem_terminal = [[False, False], [False, False], [False, True]],
        mem_value = [[[1 / 2], [1 / 10]], [[3 / 5], [1 / 10]], [[7 / 10], [1 / 10]]],
        mem_log_prob = [[0, 0], [0, 0], [0, 0]], mem_entropy = [[0, 0], [0, 0], [0, 0]]\<rparr>,
     new_obs := Some [0, 0]\<rparr>"

text \<open>The scenario with a distribution that samples one action per worker, for a
  \<^verbatim>\<open>predict\<close>/\<^verbatim>\<open>observe\<close> cycle after the rollout. No processor is configured.\<close>

definition refill_cfg :: "(nat, nat, nat list, unit, unit) config" where
  "refill_cfg = scenario_cfg\<lparr>dist_sample := (\<lambda>d g. ([7, 7], g)),
     dist_log_prob := (\<lambda>d a. [0, 0]), dist_entropy := (\<lambda>d. [0, 0])\<rparr>"

subsection \<open>The backward recurrence of the spec\<close>

text \<open>The backward recurrence in the words of the spec, for one worker:
  \<open>adv[t] = delta[t] + c * mask[t] * adv[t+1]\<close> with \<open>adv[T] = 0\<close>, over the lists of the
  worker's residuals and masks. It is not code of the repository; the advantages of the
  code are compared with it.\<close>

fun spec_backward_recurrence :: "real \<Rightarrow> real list \<Rightarrow> real list \<Rightarrow> real list" where
  "spec_backward_recurrence c (d # ds) (m # ms) =
     (let rest = spec_backward_recurrence c ds ms
      in (d + c * m * (case rest of [] \<Rightarrow> 0 | a # x \<Rightarrow> a)) # rest)"
| "spec_backward_recurrence c ds ms = []"

text \<open>The entries of worker \<open>w\<close> in a tensor over timesteps and workers.\<close>

definition column :: "nat \<Rightarrow> real list list \<Rightarrow> real list" where
  "column w rows = map (\<lambda>row. row ! w) rows"

text \<open>The nested sum of lines 239-245 on the residuals of one worker, used in the proofs.\<close>

definition nested_sums :: "real \<Rightarrow> real list \<Rightarrow> real list" where
  "nested_sums c ds = map (\<lambda>t_st. \<Sum>t = t_st..<length ds. ds ! t * c ^ (t - t_st)) [0..<length ds]"

subsection \<open>Rollout collection\<close>

text \<open>A rollout as the training loop drives it: each step calls \<^verbatim>\<open>predict\<close> on the
  current observations and then \<^verbatim>\<open>observe\<close> with the sampled action and the
  environment's answer (next observations, rewards, terminals). The loop goes on with the
  agent as an \<^verbatim>\<open>observe\<close> that raised has left it.\<close>

fun collect ::
  "('o, 'a, 's, 'd, 'g) config \<Rightarrow> bool \<Rightarrow> ('o list \<times> 'o list \<times> real list \<times> bool list) list
     \<Rightarrow> ('o, 'a, 'g) agent \<Rightarrow> ('o, 'a, 'g) agent" where
  "collect cfg training [] ag = ag"
| "collect cfg training ((obs, next_obs, reward, terminal) # steps) ag =
     (let (action, ag1) = predict cfg ag obs training
      in collect cfg training steps
           (agent_after (observe cfg ag1 next_obs action reward terminal () training)))"

section \<open>Properties\<close>

subsection \<open>Results of the error monad\<close>

lemma bindE_Inr_iff: "bindE m f = Inr y \<longleftrightarrow> (\<exists>x. m = Inr x \<and> f x = Inr y)"
  by (cases m) (simp_all add: bindE_def)

lemma bindE_Inl_iff: "bindE m f = Inl e \<longleftrightarrow> m = Inl e \<or> (\<exists>x. m = Inr x \<and> f x = Inl e)"
  by (cases m) (simp_all add: bindE_def)

lemma bindE_simps [simp]: "bindE (Inl e) f = Inl e" "bindE (Inr x) f = f x"
  by (simp_all add: bindE_def)

subsection \<open>record: a call that returns\<close>

lemma length_deque_append: "length xs \<le> L \<Longrightarrow> length (deque_append L xs x) \<le> L"
  by (simp add: deque_append_def Let_def)

lemma emit_Inr: "emit cfg e ag = Inr ag' \<Longrightarrow> ag' = ag\<lparr>writer := writer ag @ [e]\<rparr> \<and> \<not> sink_raises cfg (writer ag) e"
  by (auto simp: emit_def split: if_splits)

lemma emit_Inl: "emit cfg e ag = Inl (err, ag') \<Longrightarrow> err = SinkError \<and> ag' = ag \<and> sink_raises cfg (writer ag) e"
  by (auto simp: emit_def split: if_splits)

lemma record_worker_Inr:
  assumes "record_worker cfg a r tm i ag = Inr ag'"
  shows "i < length r \<and> i < length tm \<and> ag' = worker_done cfg a r tm i ag"
  using assms
  by (auto simp: record_worker_def Let_def appended_def summary_events_def bindE_Inr_iff worker_done_def
      dest!: emit_Inr split: if_splits)

lemma worker_done_other:
  "j \<noteq> i \<Longrightarrow> reward_record (worker_done cfg a r tm i ag) j = reward_record ag j
     \<and> ep_rewards (worker_done cfg a r tm i ag) j = ep_rewards ag j
     \<and> ep_actions (worker_done cfg a r tm i ag) j = ep_actions ag j
     \<and> episode_steps (worker_done cfg a r tm i ag) j = episode_steps ag j"
  by (simp add: worker_done_def appended_def)

lemma worker_done_same:
  "reward_record (worker_done cfg a r tm i ag) i = deque_append (smooth_length cfg) (reward_record ag i) (r ! i)"
  "ep_rewards (worker_done cfg a r tm i ag) i = (if tm ! i then [] else ep_rewards ag i @ [r ! i])"
  "ep_actions (worker_done cfg a r tm i ag) i = (if tm ! i then [] else ep_actions ag i @ [a ! i])"
  "episode_steps (worker_done cfg a r tm i ag) i = (if tm ! i then episode_steps ag i + 1 else episode_steps ag i)"
  by (simp_all add: worker_done_def appended_def)

lemma worker_done_frame:
  "memory (worker_done cfg a r tm i ag) = memory ag"
  "new_obs (worker_done cfg a r tm i ag) = new_obs ag"
  "rng (worker_done cfg a r tm i ag) = rng ag"
  "record_step (worker_done cfg a r tm i ag) = record_step ag"
  "writer (worker_done cfg a r tm i ag) = writer ag @
     (if tm ! i then summary_events i (ep_rewards ag i @ [r ! i]) (ep_actions ag i @ [a ! i]) (episode_steps ag i) else [])"
  by (simp_all add: worker_done_def appended_def)

lemma record_loop_Inr:
  assumes "record_loop cfg a r tm js ag = Inr ag'" and "distinct js"
  shows "(\<forall>j\<in>set js. j < length r \<and> j < length tm)
    \<and> (\<forall>j. reward_record ag' j = (if j \<in> set js then deque_append (smooth_length cfg) (reward_record ag j) (r ! j) else reward_record ag j))
    \<and> (\<forall>j. ep_rewards ag' j = (if j \<in> set js then (if tm ! j then [] else ep_rewards ag j @ [r ! j]) else ep_rewards ag j))
    \<and> (\<forall>j. ep_actions ag' j = (if j \<in> set js then (if tm ! j then [] else ep_actions ag j @ [a ! j]) else ep_actions ag j))
    \<and> (\<forall>j. episode_steps ag' j = (if j \<in> set js then (if tm ! j then episode_steps ag j + 1 else episode_steps ag j) else episode_steps ag j))
    \<and> writer ag' = writer ag @ concat (map (emitted a r tm ag) js)
    \<and> memory ag' = memory ag \<and> new_obs ag' = new_obs ag \<and> rng ag' = rng ag \<and> record_step ag' = record_step ag"
  using assms
proof (induction js arbitrary: ag)
  case Nil
  then show ?case by simp
next
  case (Cons i js)
  from Cons.prems(1) obtain ag1 where w: "record_worker cfg a r tm i ag = Inr ag1"
    and l: "record_loop cfg a r tm js ag1 = Inr ag'"
    by (auto simp: bindE_Inr_iff)
  from record_worker_Inr[OF w] have i: "i < length r" "i < length tm"
    and ag1: "ag1 = worker_done cfg a r tm i ag" by auto
  from Cons.prems(2) have d: "distinct js" and ni: "i \<notin> set js" by auto
  note IH = Cons.IH[OF l d]
  have em: "map (emitted a r tm ag1) js = map (emitted a r tm ag) js"
  proof (rule map_cong [OF refl])
    fix x assume "x \<in> set js"
    with ni have "x \<noteq> i" by auto
    then show "emitted a r tm ag1 x = emitted a r tm ag x"
      by (simp add: emitted_def ag1 worker_done_other)
  qed
  have wr: "writer ag1 = writer ag @ emitted a r tm ag i"
    by (simp add: ag1 worker_done_frame emitted_def)
  show ?case
    apply (intro conjI allI)
    subgoal using IH i by auto
    subgoal for j using IH ni by (cases "j = i") (auto simp: ag1 worker_done_other worker_done_same)
    subgoal for j using IH ni by (cases "j = i") (auto simp: ag1 worker_done_other worker_done_same)
    subgoal for j using IH ni by (cases "j = i") (auto simp: ag1 worker_done_other worker_done_same)
    subgoal for j using IH ni by (cases "j = i") (auto simp: ag1 worker_done_other worker_done_same)
    subgoal using IH by (simp add: em wr)
    subgoal using IH by (simp add: ag1 worker_done_frame)
    subgoal using IH by (simp add: ag1 worker_done_frame)
    subgoal using IH by (simp add: ag1 worker_done_frame)
    subgoal using IH by (simp add: ag1 worker_done_frame)
    done
qed

lemma record_agent_Inr:
  assumes "record_agent cfg ag a r tm = Inr ag'"
  shows "length a \<le> length r \<and> length a \<le> length tm
    \<and> (\<forall>j. reward_record ag' j = (if j < length a then deque_append (smooth_length cfg) (reward_record ag j) (r ! j) else reward_record ag j))
    \<and> (\<forall>j. ep_rewards ag' j = (if j < length a then (if tm ! j then [] else ep_rewards ag j @ [r ! j]) else ep_rewards ag j))
    \<and> (\<forall>j. ep_actions ag' j = (if j < length a then (if tm ! j then [] else ep_actions ag j @ [a ! j]) else ep_actions ag j))
    \<and> (\<forall>j. episode_steps ag' j = (if j < length a then (if tm ! j then episode_steps ag j + 1 else episode_steps ag j) else episode_steps ag j))
    \<and> writer ag' = writer ag @ concat (map (emitted a r tm ag) [0..<length a])
    \<and> memory ag' = memory ag \<and> new_obs ag' = new_obs ag \<and> rng ag' = rng ag \<and> record_step ag' = record_step ag + 1"
proof -
  from assms obtain ag1 where l: "record_loop cfg a r tm [0..<length a] ag = Inr ag1"
    and ag': "ag' = ag1\<lparr>record_step := record_step ag1 + 1\<rparr>"
    by (auto simp: record_agent_def bindE_Inr_iff)
  from record_loop_Inr[OF l] have *: "(\<forall>j\<in>set [0..<length a]. j < length r \<and> j < length tm)
    \<and> (\<forall>j. reward_record ag1 j = (if j \<in> set [0..<length a] then deque_append (smooth_length cfg) (reward_record ag j) (r ! j) else reward_record ag j))
    \<and> (\<forall>j. ep_rewards ag1 j = (if j \<in> set [0..<length a] then (if tm ! j then [] else ep_rewards ag j @ [r ! j]) else ep_rewards ag j))
    \<and> (\<forall>j. ep_actions ag1 j = (if j \<in> set [0..<length a] then (if tm ! j then [] else ep_actions ag j @ [a ! j]) else ep_actions ag j))
    \<and> (\<forall>j. episode_steps ag1 j = (if j \<in> set [0..<length a] then (if tm ! j then episode_steps ag j + 1 else episode_steps ag j) else episode_steps ag j))
    \<and> writer ag1 = writer ag @ concat (map (emitted a r tm ag) [0..<length a])
    \<and> memory ag1 = memory ag \<and> new_obs ag1 = new_obs ag \<and> rng ag1 = rng ag \<and> record_step ag1 = record_step ag"
    by simp
  have le: "length a \<le> length r \<and> length a \<le> length tm"
  proof (cases "length a")
    case 0 then show ?thesis by simp
  next
    case (Suc n)
    with * have "n < length r \<and> n < length tm" by simp
    with Suc show ?thesis by simp
  qed
  from * le show ?thesis unfolding ag' by simp
qed






subsection \<open>record: the smoothed reward window\<close>

lemma appended_window_ok: "window_ok cfg ag \<Longrightarrow> window_ok cfg (appended cfg a r i ag)"
  by (simp add: window_ok_def appended_def length_deque_append)

lemma emit_window: 
  "emit cfg e ag = Inr ag' \<Longrightarrow> reward_record ag' = reward_record ag"
  "emit cfg e ag = Inl (err, ag') \<Longrightarrow> reward_record ag' = reward_record ag"
  by (auto simp: emit_def split: if_splits)

lemma record_worker_window_ok:
  assumes "window_ok cfg ag"
  shows "window_ok cfg (agent_after (record_worker cfg a r tm i ag))"
proof (cases "record_worker cfg a r tm i ag")
  case (Inr ag')
  then have "ag' = worker_done cfg a r tm i ag" using record_worker_Inr by blast
  then have "reward_record ag' = reward_record (appended cfg a r i ag)"
    by (simp add: worker_done_def)
  with appended_window_ok[OF assms, of a r i] Inr show ?thesis
    by (simp add: window_ok_def agent_after_def)
next
  case (Inl p)
  obtain e ag' where p: "p = (e, ag')" by (cases p)
  have "reward_record ag' = reward_record ag \<or> reward_record ag' = reward_record (appended cfg a r i ag)"
    using Inl unfolding p
    by (auto simp: record_worker_def Let_def bindE_Inl_iff split: if_splits dest!: emit_Inl emit_Inr)
  with appended_window_ok[OF assms, of a r i] assms Inl p show ?thesis
    by (auto simp: window_ok_def agent_after_def)
qed

lemma record_loop_window_ok:
  "window_ok cfg ag \<Longrightarrow> window_ok cfg (agent_after (record_loop cfg a r tm js ag))"
proof (induction js arbitrary: ag)
  case Nil
  then show ?case by (simp add: agent_after_def)
next
  case (Cons i js)
  show ?case
  proof (cases "record_worker cfg a r tm i ag")
    case (Inl p)
    with record_worker_window_ok[OF Cons.prems, of a r tm i] show ?thesis by simp
  next
    case (Inr ag1)
    with record_worker_window_ok[OF Cons.prems, of a r tm i] have "window_ok cfg ag1"
      by (simp add: agent_after_def)
    from Cons.IH[OF this] Inr show ?thesis by simp
  qed
qed

lemma record_agent_window_ok:
  assumes "window_ok cfg ag"
  shows "window_ok cfg (agent_after (record_agent cfg ag a r tm))"
proof (cases "record_loop cfg a r tm [0..<length a] ag")
  case (Inl p)
  with record_loop_window_ok[OF assms, of a r tm "[0..<length a]"] show ?thesis
    by (simp add: record_agent_def)
next
  case (Inr ag1)
  with record_loop_window_ok[OF assms, of a r tm "[0..<length a]"] show ?thesis
    by (simp add: record_agent_def agent_after_def window_ok_def)
qed

lemma run_records_window_ok:
  "window_ok cfg ag \<Longrightarrow> window_ok cfg (run_records cfg calls ag)"
proof (induction calls arbitrary: ag)
  case Nil then show ?case by simp
next
  case (Cons c calls)
  obtain a r tm where c: "c = (a, r, tm)" by (cases c)
  show ?case unfolding c using Cons.IH[OF record_agent_window_ok[OF Cons.prems]] by simp
qed

lemma init_window_ok: "window_ok cfg (init_agent g)"
  by (simp add: window_ok_def init_agent_def)

lemma deque_append_last_n:
  "deque_append L (last_n L xs) x = last_n L (xs @ [x])"
proof (cases "length xs < L")
  case True
  then show ?thesis by (simp add: deque_append_def last_n_def Let_def)
next
  case False
  let ?k = "length xs - L"
  have len: "length (drop ?k xs) = L" using False by simp
  have "deque_append L (last_n L xs) x = tl (drop ?k xs @ [x])"
    using len by (simp add: deque_append_def last_n_def Let_def)
  also have "\<dots> = tl (drop ?k (xs @ [x]))" by simp
  also have "\<dots> = drop (Suc ?k) (xs @ [x])" by (simp only: drop_Suc drop_tl)
  also have "Suc ?k = length (xs @ [x]) - L" using False by simp
  finally show ?thesis by (simp add: last_n_def)
qed

lemma records_seq_fifo:
  assumes "records_seq cfg calls ag = Inr ag'"
  shows "\<forall>h. reward_record ag i = last_n (smooth_length cfg) h \<longrightarrow>
      reward_record ag' i = last_n (smooth_length cfg) (h @ rewards_seen i calls)"
  using assms
proof (induction calls arbitrary: ag)
  case Nil
  then show ?case by (simp add: rewards_seen_def)
next
  case (Cons c calls)
  obtain a r tm where c: "c = (a, r, tm)" by (cases c)
  from Cons.prems obtain ag1 where r1: "record_agent cfg ag a r tm = Inr ag1"
    and rest: "records_seq cfg calls ag1 = Inr ag'"
    unfolding c by (auto simp: bindE_Inr_iff)
  note IH = Cons.IH[OF rest]
  have seen: "rewards_seen i (c # calls) = (if i < length a then [r ! i] else []) @ rewards_seen i calls"
    by (simp add: rewards_seen_def c)
  show ?case
  proof (intro allI impI)
    fix h assume h: "reward_record ag i = last_n (smooth_length cfg) h"
    have "reward_record ag1 i = last_n (smooth_length cfg) (h @ (if i < length a then [r ! i] else []))"
      using record_agent_Inr[OF r1] h by (simp add: deque_append_last_n)
    with IH have "reward_record ag' i = last_n (smooth_length cfg)
       ((h @ (if i < length a then [r ! i] else [])) @ rewards_seen i calls)" by blast
    then show "reward_record ag' i = last_n (smooth_length cfg) (h @ rewards_seen i (c # calls))"
      by (simp add: seen)
  qed
qed

text \<open>
  C7. After any sequence of \<^verbatim>\<open>record\<close> calls on a fresh agent, whether or not some of
  them raised, the smoothed reward window of every worker holds at most
  \<open>smooth_length\<close> rewards; and when every call returned, the window is exactly the last
  \<open>smooth_length\<close> rewards the worker received, in order: the oldest ones were evicted.
\<close>

theorem smoothed_window_bounded_fifo:
  "length (reward_record (run_records cfg calls (init_agent g)) i) \<le> smooth_length cfg
   \<and> (records_seq cfg calls (init_agent g) = Inr ag' \<longrightarrow>
        reward_record ag' i = last_n (smooth_length cfg) (rewards_seen i calls))"
proof
  show "length (reward_record (run_records cfg calls (init_agent g)) i) \<le> smooth_length cfg"
    using run_records_window_ok[OF init_window_ok, of cfg calls g] by (simp add: window_ok_def)
  show "records_seq cfg calls (init_agent g) = Inr ag' \<longrightarrow>
        reward_record ag' i = last_n (smooth_length cfg) (rewards_seen i calls)"
  proof
    assume a: "records_seq cfg calls (init_agent g) = Inr ag'"
    have "reward_record (init_agent g :: ('a, 'b, 'c) agent) i = last_n (smooth_length cfg) []"
      by (simp add: init_agent_def last_n_def)
    with records_seq_fifo[OF a, of i] show "reward_record ag' i = last_n (smooth_length cfg) (rewards_seen i calls)"
      by (metis append_Nil)
  qed
qed

lemma demo_calls_run: "\<exists>ag'. records_seq (demo_cfg False) demo_calls (init_agent ()) = Inr ag'"
  by (simp add: demo_calls_def record_agent_def upt_rec record_worker_def appended_def emit_def init_agent_def demo_cfg_def Let_def)

theorem smoothed_window_bounded_fifo_witness:
  "\<exists>ag'. records_seq (demo_cfg False) demo_calls (init_agent ()) = Inr ag'
      \<and> reward_record ag' 0 = [2, 3]
      \<and> length (reward_record (run_records (demo_cfg False) demo_calls (init_agent ())) 0) \<le> 2"
proof -
  from demo_calls_run obtain ag' where
    r: "records_seq (demo_cfg False) demo_calls (init_agent ()) = Inr ag'" ..
  have "reward_record ag' 0 = [2, 3]
     \<and> length (reward_record (run_records (demo_cfg False) demo_calls (init_agent ())) 0) \<le> 2"
    using smoothed_window_bounded_fifo[of "demo_cfg False" demo_calls "()" 0 ag'] r
    by (simp add: rewards_seen_def demo_calls_def last_n_def demo_cfg_def)
  with r show ?thesis by blast
qed

subsection \<open>record: a sink that raises\<close>

lemma record_loop_append:
  "record_loop cfg a r tm (xs @ ys) ag = bindE (record_loop cfg a r tm xs ag) (record_loop cfg a r tm ys)"
proof (induction xs arbitrary: ag)
  case Nil show ?case by simp
next
  case (Cons x xs)
  show ?case by (cases "record_worker cfg a r tm x ag") (simp_all add: Cons.IH)
qed

lemma record_worker_sink_raises:
  assumes i: "i < length r" "i < length tm" "tm ! i"
    and k: "k < 3" "sink_raises cfg (writer ag @ take k (emitted a r tm ag i)) (emitted a r tm ag i ! k)"
  shows "\<exists>ag'. record_worker cfg a r tm i ag = Inl (SinkError, ag')
      \<and> episode_steps ag' = episode_steps ag
      \<and> ep_rewards ag' i = ep_rewards ag i @ [r ! i]
      \<and> ep_actions ag' i = ep_actions ag i @ [a ! i]
      \<and> record_step ag' = record_step ag"
proof -
  from k(1) consider "k = 0" | "k = 1" | "k = 2" by linarith
  then show ?thesis
  proof cases
    case 1
    with k(2) i show ?thesis
      by (simp add: record_worker_def Let_def emit_def appended_def emitted_def summary_events_def)
  next
    case 2
    with k(2) i show ?thesis
      by (simp add: record_worker_def Let_def emit_def appended_def emitted_def summary_events_def)
  next
    case 3
    with k(2) i show ?thesis
      by (simp add: record_worker_def Let_def emit_def appended_def emitted_def summary_events_def numeral_2_eq_2)
  qed
qed

text \<open>
  C4, as amended. \<^verbatim>\<open>record\<close> has no exception handler. When the workers before
  \<open>i\<close> have been processed, worker \<open>i\<close> terminates, and the sink raises on one of the
  three calls of its episode summary, \<^verbatim>\<open>record\<close> raises that error: the episode index
  of worker \<open>i\<close> is not incremented, its episode lists are not cleared (they hold the
  episode including this step), and \<open>record_step\<close> is not incremented.
\<close>

theorem record_sink_error_propagates:
  assumes before: "record_loop cfg a r tm [0..<i] ag = Inr agi"
    and i: "i < length a" "i < length r" "i < length tm" "tm ! i"
    and k: "k < 3" "sink_raises cfg (writer agi @ take k (emitted a r tm ag i)) (emitted a r tm ag i ! k)"
  shows "\<exists>ag'. record_agent cfg ag a r tm = Inl (SinkError, ag')
      \<and> episode_steps ag' i = episode_steps ag i
      \<and> ep_rewards ag' i = ep_rewards ag i @ [r ! i]
      \<and> ep_actions ag' i = ep_actions ag i @ [a ! i]
      \<and> record_step ag' = record_step ag"
proof -
  have split: "[0..<length a] = [0..<i] @ i # [Suc i..<length a]"
  proof -
    have "[0..<length a] = [0..<i] @ [i..<length a]"
      using i(1) upt_add_eq_append[of 0 i "length a - i"] by simp
    then show ?thesis using i(1) by (simp add: upt_conv_Cons)
  qed
  note L = record_loop_Inr[OF before]
  have same: "ep_rewards agi i = ep_rewards ag i" "ep_actions agi i = ep_actions ag i"
    "episode_steps agi i = episode_steps ag i" "record_step agi = record_step ag"
    using L by simp_all
  have em: "emitted a r tm agi i = emitted a r tm ag i"
    by (simp add: emitted_def same)
  from record_worker_sink_raises[OF i(2,3,4) k(1), of cfg agi a] k(2) em
  obtain ag' where w: "record_worker cfg a r tm i agi = Inl (SinkError, ag')"
    and f: "episode_steps ag' = episode_steps agi" "ep_rewards ag' i = ep_rewards agi i @ [r ! i]"
      "ep_actions ag' i = ep_actions agi i @ [a ! i]" "record_step ag' = record_step agi"
    by auto
  have "record_agent cfg ag a r tm = Inl (SinkError, ag')"
    by (simp add: record_agent_def split record_loop_append before w)
  with f same show ?thesis by simp
qed

theorem record_sink_error_propagates_witness:
  "\<exists>ag'. record_agent (demo_cfg True) (init_agent ()) [7, 8] [1, 2] [False, True] = Inl (SinkError, ag')
      \<and> episode_steps ag' 1 = 0 \<and> ep_rewards ag' 1 = [2] \<and> ep_actions ag' 1 = [8] \<and> record_step ag' = 0"
proof -
  have b: "record_loop (demo_cfg True) [7, 8] [1, 2] [False, True] [0..<1] (init_agent ())
      = Inr (appended (demo_cfg True) [7, 8] [1, 2] 0 (init_agent ()))"
    by (simp add: upt_rec record_worker_def Let_def)
  have s: "sink_raises (demo_cfg True) (writer (appended (demo_cfg True) [7, 8] [1, 2] 0 (init_agent ()))
        @ take 0 (emitted [7, 8] [1, 2] [False, True] (init_agent ()) 1))
      (emitted [7, 8] [1, 2] [False, True] (init_agent ()) 1 ! 0)"
    by (simp add: demo_cfg_def)
  from record_sink_error_propagates[OF b _ _ _ _ _ s]
  show ?thesis by (simp add: init_agent_def)
qed

text \<open>
  C4 as stated fails: with a sink that raises, one worker and \<open>terminal = [True]\<close>, the
  call returns the sink's error, the episode index stays 0 and the lists stay filled.
\<close>

theorem record_sink_error_not_swallowed:
  "sink_raises (demo_cfg True) [] (AddScalar ''data/episode_reward_sum_0'' 1 0)
   \<and> (case record_agent (demo_cfg True) (init_agent ()) [7] [1] [True] of
        Inl (e, ag') \<Rightarrow> e = SinkError \<and> episode_steps ag' 0 = 0 \<and> ep_rewards ag' 0 = [1]
           \<and> ep_actions ag' 0 = [7] \<and> record_step ag' = 0
      | Inr ag' \<Rightarrow> False)"
  by (simp add: record_agent_def upt_rec record_worker_def appended_def emit_def init_agent_def
      demo_cfg_def Let_def)

subsection \<open>aggregate_experiences on a completed rollout\<close>

lemma np_array_ok: "list_all (\<lambda>r. length r = n) rows \<Longrightarrow> np_array rows = Inr rows"
  by (cases rows) (auto simp: np_array_def list_all_iff)

lemma torch_stack_ok:
  "xs \<noteq> [] \<Longrightarrow> list_all (\<lambda>x. shape x = s) xs \<Longrightarrow> torch_stack shape xs = Inr xs"
  by (cases xs) (auto simp: torch_stack_def list_all_iff)

lemma read_rollout_ok:
  assumes "complete_rollout T n k m"
  shows "read_rollout m = Inr (mem_reward m, masks_of m, values_of m, mem_log_prob m, mem_entropy m)"
proof -
  from assms have ne: "mem_value m \<noteq> []" "mem_log_prob m \<noteq> []" "mem_entropy m \<noteq> []"
    by (auto simp: complete_rollout_def)
  from assms have a: "np_array (mem_reward m) = Inr (mem_reward m)"
    "np_array (mem_terminal m) = Inr (mem_terminal m)"
    by (auto simp: complete_rollout_def intro: np_array_ok)
  from assms ne have b: "torch_stack (map length) (mem_value m) = Inr (mem_value m)"
    "torch_stack length (mem_log_prob m) = Inr (mem_log_prob m)"
    "torch_stack length (mem_entropy m) = Inr (mem_entropy m)"
    by (auto simp: complete_rollout_def intro: torch_stack_ok)
  show ?thesis
    by (simp add: read_rollout_def a b masks_of_def values_of_def)
qed

lemma bcast_same: "length xs = length ys \<Longrightarrow> bcast f xs ys = Inr (map2 f xs ys)"
  by (simp add: bcast_def)

lemma length_delta_row:
  "length r = n \<Longrightarrow> length v1 = n \<Longrightarrow> length m = n \<Longrightarrow> length v = n \<Longrightarrow> length (delta_row r v1 m v) = n"
  by (simp add: delta_row_def)

lemma nth_delta_row:
  "length r = n \<Longrightarrow> length v1 = n \<Longrightarrow> length m = n \<Longrightarrow> length v = n \<Longrightarrow> w < n \<Longrightarrow>
   delta_row r v1 m v ! w = r ! w + v1 ! w * m ! w - v ! w"
  by (simp add: delta_row_def)

lemma delta_step_ok:
  assumes "t < length rewards" "Suc t < length values" "t < length masks"
    and "length (rewards ! t) = n" "length (values ! Suc t) = n" "length (masks ! t) = n"
      "length (values ! t) = n"
  shows "delta_step rewards values masks t =
     Inr (delta_row (rewards ! t) (values ! Suc t) (masks ! t) (values ! t))"
  using assms by (simp add: delta_step_def get_row_def bcast_same delta_row_def)

lemma deltas_loop_ok:
  assumes "\<forall>t\<in>set ts. t < length rewards \<and> Suc t < length values \<and> t < length masks"
    and "\<forall>r\<in>set rewards. length r = n" "\<forall>r\<in>set values. length r = n" "\<forall>r\<in>set masks. length r = n"
  shows "deltas_loop rewards values masks ts acc =
     Inr (acc @ map (\<lambda>t. delta_row (rewards ! t) (values ! Suc t) (masks ! t) (values ! t)) ts)"
  using assms(1)
proof (induction ts arbitrary: acc)
  case Nil
  show ?case by simp
next
  case (Cons t ts)
  from Cons.prems have t: "t < length rewards" "Suc t < length values" "t < length masks" by auto
  then have "delta_step rewards values masks t =
     Inr (delta_row (rewards ! t) (values ! Suc t) (masks ! t) (values ! t))"
    using assms(2-4) by (intro delta_step_ok[where n = n]) auto
  moreover have "\<forall>t\<in>set ts. t < length rewards \<and> Suc t < length values \<and> t < length masks"
    using Cons.prems by auto
  ultimately show ?case using Cons.IH by simp
qed

lemma rollout_rows:
  assumes "complete_rollout T n k m"
  shows "length (mem_reward m) = T" "length (masks_of m) = T" "length (values_of m) = T"
    "\<forall>r\<in>set (mem_reward m). length r = n" "\<forall>r\<in>set (masks_of m). length r = n"
    "\<forall>r\<in>set (values_of m). length r = n" "0 < T"
proof -
  have len: "length v = n" if "map length v = replicate n k" for v :: "real list list"
    using that by (metis length_map length_replicate)
  from assms show "length (mem_reward m) = T" "length (masks_of m) = T" "length (values_of m) = T"
    "\<forall>r\<in>set (mem_reward m). length r = n" "\<forall>r\<in>set (masks_of m). length r = n" "0 < T"
    by (auto simp: complete_rollout_def masks_of_def values_of_def list_all_iff)
  from assms have "\<forall>v\<in>set (mem_value m). map length v = replicate n k"
    by (simp add: complete_rollout_def list_all_iff)
  then show "\<forall>r\<in>set (values_of m). length r = n"
    by (auto simp: values_of_def dest: len)
qed

lemma td_residuals_ok:
  assumes c: "complete_rollout T n k (memory ag)"
    and no: "new_obs ag \<noteq> None" and bv: "length (bootstrap_value cfg ag) = n"
  shows "td_residuals cfg ag (mem_reward (memory ag)) (values_of (memory ag)) (masks_of (memory ag))
     = Inr (deltas_of cfg ag)"
proof -
  let ?m = "memory ag"
  note R = rollout_rows[OF c]
  have loop: "deltas_loop (mem_reward ?m) (values_of ?m) (masks_of ?m) [0..<T - 1] [] =
     Inr ([] @ map (\<lambda>t. delta_row (mem_reward ?m ! t) (values_of ?m ! Suc t) (masks_of ?m ! t) (values_of ?m ! t)) [0..<T - 1])"
    using R by (intro deltas_loop_ok[where n = n]) auto
  from no obtain obs where obs: "new_obs ag = Some obs" by auto
  have ne: "mem_reward ?m \<noteq> []" "masks_of ?m \<noteq> []" "values_of ?m \<noteq> []" using R by auto
  have ll: "length (last (mem_reward ?m)) = n" "length (last (masks_of ?m)) = n" "length (last (values_of ?m)) = n"
    using R ne by (auto simp del: last_map)
  have bv': "length (map sum_list (snd (ac_model cfg (get_recent_state cfg ?m obs)))) = n"
    using bv by (simp add: bootstrap_value_def obs)
  show ?thesis
    using ne ll bv' R(1)
    by (simp add: td_residuals_def loop[unfolded delta_row_def, simplified] Let_def
        get_newest_state_def obs last_row_def
        bcast_same deltas_of_def delta_row_def bootstrap_value_def del: last_map)
qed

lemma acc_add_Tens: "length x = length ys \<Longrightarrow> acc_add (Tens ys) x = Inr (Tens (map2 (+) ys x))"
  by (simp add: acc_add_def)

lemma acc_add_Num0: "acc_add (Num 0) x = Inr (Tens x)"
proof -
  have "map ((+) (0::real)) x = x" by (induction x) simp_all
  then show ?thesis by (simp add: acc_add_def)
qed

lemma adv_inner_Tens:
  assumes "\<forall>t\<in>set ts. t < length deltas" "\<forall>d\<in>set deltas. length d = n" "length ys = n"
  shows "adv_inner c deltas ts (Tens ys) p =
     Inr (Tens (map (\<lambda>w. ys ! w + (\<Sum>j<length ts. deltas ! (ts ! j) ! w * c ^ (p + j))) [0..<n]))"
  using assms(1,3)
proof (induction ts arbitrary: ys p)
  case Nil
  have "map ((!) ys) [0..<length ys] = ys" by (rule map_nth)
  with Nil show ?case by simp
next
  case (Cons t ts)
  from Cons.prems have t: "t < length deltas" and ts: "\<forall>t\<in>set ts. t < length deltas" by auto
  then have lt: "length (deltas ! t) = n" using assms(2) by simp
  let ?x = "map (\<lambda>v. v * c ^ p) (deltas ! t)"
  let ?ys = "map2 (+) ys ?x"
  have len: "length ?ys = n" using lt Cons.prems(2) by simp
  have step: "acc_add (Tens ys) ?x = Inr (Tens ?ys)"
    using lt Cons.prems(2) by (simp add: acc_add_Tens)
  have "adv_inner c deltas (t # ts) (Tens ys) p = adv_inner c deltas ts (Tens ?ys) (p + 1)"
    using t by (simp add: get_row_def step)
  also have "\<dots> = Inr (Tens (map (\<lambda>w. ?ys ! w + (\<Sum>j<length ts. deltas ! (ts ! j) ! w * c ^ (p + 1 + j))) [0..<n]))"
    by (rule Cons.IH[OF ts len])
  also have "map (\<lambda>w. ?ys ! w + (\<Sum>j<length ts. deltas ! (ts ! j) ! w * c ^ (p + 1 + j))) [0..<n]
      = map (\<lambda>w. ys ! w + (\<Sum>j<length (t # ts). deltas ! ((t # ts) ! j) ! w * c ^ (p + j))) [0..<n]"
  proof (rule map_cong [OF refl])
    fix w assume "w \<in> set [0..<n]"
    then have w: "w < n" by simp
    have "?ys ! w = ys ! w + deltas ! t ! w * c ^ p"
      using w lt Cons.prems(2) by simp
    moreover have "(\<Sum>j<length (t # ts). deltas ! ((t # ts) ! j) ! w * c ^ (p + j))
        = deltas ! t ! w * c ^ p + (\<Sum>j<length ts. deltas ! (ts ! j) ! w * c ^ (p + 1 + j))"
    proof -
      have "(\<Sum>j<Suc (length ts). deltas ! ((t # ts) ! j) ! w * c ^ (p + j))
          = deltas ! ((t # ts) ! 0) ! w * c ^ (p + 0)
            + (\<Sum>j<length ts. deltas ! ((t # ts) ! Suc j) ! w * c ^ (p + Suc j))"
        by (rule sum.lessThan_Suc_shift)
      then show ?thesis by simp
    qed
    ultimately show "?ys ! w + (\<Sum>j<length ts. deltas ! (ts ! j) ! w * c ^ (p + 1 + j))
        = ys ! w + (\<Sum>j<length (t # ts). deltas ! ((t # ts) ! j) ! w * c ^ (p + j))"
      by simp
  qed
  finally show ?case .
qed

lemma adv_inner_start:
  assumes "t_st < T" "T \<le> length deltas" "\<forall>d\<in>set deltas. length d = n"
  shows "adv_inner c deltas [t_st..<T] (Num 0) 0 = Inr (Tens (adv_row c deltas T n t_st))"
proof -
  let ?ys = "map (\<lambda>v. v * c ^ 0) (deltas ! t_st)"
  have lt: "length (deltas ! t_st) = n" using assms by simp
  have ts: "\<forall>t\<in>set [Suc t_st..<T]. t < length deltas" using assms(2) by simp
  have "adv_inner c deltas [t_st..<T] (Num 0) 0 = adv_inner c deltas [Suc t_st..<T] (Tens ?ys) 1"
    using assms(1,2) by (simp add: upt_conv_Cons get_row_def acc_add_Num0)
  also have "\<dots> = Inr (Tens (map (\<lambda>w. ?ys ! w + (\<Sum>j<length [Suc t_st..<T]. deltas ! ([Suc t_st..<T] ! j) ! w * c ^ (1 + j))) [0..<n]))"
    using lt by (intro adv_inner_Tens[OF ts assms(3)]) simp
  also have "map (\<lambda>w. ?ys ! w + (\<Sum>j<length [Suc t_st..<T]. deltas ! ([Suc t_st..<T] ! j) ! w * c ^ (1 + j))) [0..<n]
      = adv_row c deltas T n t_st"
    unfolding adv_row_def
  proof (rule map_cong [OF refl])
    fix w assume "w \<in> set [0..<n]"
    then have w: "w < n" by simp
    have a: "?ys ! w = deltas ! t_st ! w" using w lt by simp
    have "(\<Sum>t = t_st..<T. deltas ! t ! w * c ^ (t - t_st))
        = deltas ! t_st ! w + (\<Sum>t = Suc t_st..<T. deltas ! t ! w * c ^ (t - t_st))"
      using assms(1) by (simp add: sum.atLeast_Suc_lessThan)
    also have "(\<Sum>t = Suc t_st..<T. deltas ! t ! w * c ^ (t - t_st))
        = (\<Sum>j<T - Suc t_st. deltas ! (Suc t_st + j) ! w * c ^ (1 + j))"
    proof (rule sum.reindex_bij_witness[where i = "\<lambda>j. Suc t_st + j" and j = "\<lambda>t. t - Suc t_st"])
      fix a assume "a \<in> {Suc t_st..<T}"
      then have a: "Suc t_st \<le> a" "a < T" by auto
      show "Suc t_st + (a - Suc t_st) = a" using a by simp
      show "a - Suc t_st \<in> {..<T - Suc t_st}" using a by auto
      have "a - t_st = Suc (a - Suc t_st)" using a by simp
      then show "deltas ! (Suc t_st + (a - Suc t_st)) ! w * c ^ (1 + (a - Suc t_st))
          = deltas ! a ! w * c ^ (a - t_st)" using a by simp
    next
      fix b assume "b \<in> {..<T - Suc t_st}"
      then show "Suc t_st + b - Suc t_st = b" "Suc t_st + b \<in> {Suc t_st..<T}" by auto
    qed
    also have "\<dots> = (\<Sum>j<length [Suc t_st..<T]. deltas ! ([Suc t_st..<T] ! j) ! w * c ^ (1 + j))"
      by simp
    finally show "?ys ! w + (\<Sum>j<length [Suc t_st..<T]. deltas ! ([Suc t_st..<T] ! j) ! w * c ^ (1 + j))
        = (\<Sum>t = t_st..<T. deltas ! t ! w * c ^ (t - t_st))"
      using a by simp
  qed
  finally show ?thesis .
qed

lemma adv_outer_ok:
  assumes "\<forall>t\<in>set ts. t < T" "T \<le> length deltas" "\<forall>d\<in>set deltas. length d = n"
  shows "adv_outer c deltas T ts advs = Inr (advs @ map (\<lambda>t. Tens (adv_row c deltas T n t)) ts)"
  using assms(1)
proof (induction ts arbitrary: advs)
  case Nil
  show ?case by simp
next
  case (Cons t ts)
  then have "t < T" "\<forall>t\<in>set ts. t < T" by auto
  with Cons.IH adv_inner_start[OF _ assms(2,3), of t c] show ?case by simp
qed

lemma tensor_rows_Tens: "tensor_rows (map Tens rows) = Inr rows"
  by (induction rows) simp_all

lemma length_adv_row: "length (adv_row c deltas T n t) = n"
  by (simp add: adv_row_def)

lemma gae_advantages_ok:
  assumes "0 < T" "T \<le> length deltas" "\<forall>d\<in>set deltas. length d = n"
  shows "gae_advantages c deltas T = Inr (map (adv_row c deltas T n) [0..<T])"
proof -
  have "adv_outer c deltas T [0..<T] [] = Inr ([] @ map (\<lambda>t. Tens (adv_row c deltas T n t)) [0..<T])"
    using assms by (intro adv_outer_ok) auto
  then have o: "adv_outer c deltas T [0..<T] [] = Inr (map Tens (map (adv_row c deltas T n) [0..<T]))"
    by simp
  have "torch_stack length (map (adv_row c deltas T n) [0..<T]) = Inr (map (adv_row c deltas T n) [0..<T])"
    using assms(1) by (intro torch_stack_ok[where s = n]) (auto simp: list_all_iff length_adv_row)
  then show ?thesis
    by (simp add: gae_advantages_def o stack_advs_def tensor_rows_Tens del: map_map)
qed

lemma deltas_of_rows:
  assumes c: "complete_rollout T n k (memory ag)" and bv: "length (bootstrap_value cfg ag) = n"
  shows "length (deltas_of cfg ag) = T" "\<forall>d\<in>set (deltas_of cfg ag). length d = n"
proof -
  note R = rollout_rows[OF c]
  show "length (deltas_of cfg ag) = T" using R by (simp add: deltas_of_def Let_def)
  have ne: "mem_reward (memory ag) \<noteq> []" "masks_of (memory ag) \<noteq> []" "values_of (memory ag) \<noteq> []" using R by auto
  have ll: "length (last (mem_reward (memory ag))) = n" "length (last (masks_of (memory ag))) = n"
      "length (last (values_of (memory ag))) = n"
    using R ne by (auto simp del: last_map)
  show "\<forall>d\<in>set (deltas_of cfg ag). length d = n"
  proof
    fix d assume "d \<in> set (deltas_of cfg ag)"
    then consider t where "t < T - 1"
        "d = delta_row (mem_reward (memory ag) ! t) (values_of (memory ag) ! Suc t)
               (masks_of (memory ag) ! t) (values_of (memory ag) ! t)"
      | "d = delta_row (last (mem_reward (memory ag))) (bootstrap_value cfg ag)
               (last (masks_of (memory ag))) (last (values_of (memory ag)))"
      using R(1) by (auto simp: deltas_of_def Let_def)
    then show "length d = n"
    proof cases
      case 1
      have "length (mem_reward (memory ag) ! t) = n" "length (values_of (memory ag) ! Suc t) = n"
        "length (masks_of (memory ag) ! t) = n" "length (values_of (memory ag) ! t) = n"
        using 1(1) R by simp_all
      then show ?thesis unfolding 1(2) by (rule length_delta_row)
    next
      case 2
      show ?thesis unfolding 2 using ll(1) bv ll(2,3) by (rule length_delta_row)
    qed
  qed
qed

lemma aggregate_ok:
  assumes c: "complete_rollout T n k (memory ag)"
    and no: "new_obs ag \<noteq> None" and bv: "length (bootstrap_value cfg ag) = n"
  shows "rollout_deltas cfg ag = Inr (deltas_of cfg ag)"
    and "aggregate_experiences cfg ag =
      Inr ((map (adv_row (discount cfg * gae_lambda cfg) (deltas_of cfg ag) T n) [0..<T],
            mem_log_prob (memory ag), mem_entropy (memory ag)), ag\<lparr>memory := mem_reset\<rparr>)"
proof -
  note R = rollout_rows[OF c]
  note D = deltas_of_rows[OF c bv]
  show "rollout_deltas cfg ag = Inr (deltas_of cfg ag)"
    by (simp add: rollout_deltas_def mem_sample_def read_rollout_ok[OF c] td_residuals_ok[OF c no bv])
  have g: "gae_advantages (discount cfg * gae_lambda cfg) (deltas_of cfg ag) T
      = Inr (map (adv_row (discount cfg * gae_lambda cfg) (deltas_of cfg ag) T n) [0..<T])"
    using R(7) D by (intro gae_advantages_ok) auto
  show "aggregate_experiences cfg ag =
      Inr ((map (adv_row (discount cfg * gae_lambda cfg) (deltas_of cfg ag) T n) [0..<T],
            mem_log_prob (memory ag), mem_entropy (memory ag)), ag\<lparr>memory := mem_reset\<rparr>)"
    by (simp add: aggregate_experiences_def mem_sample_def read_rollout_ok[OF c]
        td_residuals_ok[OF c no bv] R(1) g)
qed

lemma newest_state_bootstrap:
  assumes "get_newest_state cfg ag = Inr s"
  shows "new_obs ag \<noteq> None" "bootstrap_value cfg ag = map sum_list (snd (ac_model cfg s))"
    "\<exists>obs. new_obs ag = Some obs \<and> s = get_recent_state cfg (memory ag) obs"
  using assms by (auto simp: get_newest_state_def bootstrap_value_def split: option.splits)

lemma nth_adv_row:
  "w < n \<Longrightarrow> adv_row c deltas T n t ! w = (\<Sum>t' = t..<T. deltas ! t' ! w * c ^ (t' - t))"
  by (simp add: adv_row_def)

text \<open>
  C1. For a completed rollout of \<open>T\<close> timesteps whose newest state is set,
  \<^verbatim>\<open>aggregate_experiences\<close> returns, and for every start index \<open>t_st < T\<close> and every
  worker the advantage is the sum over \<open>t\<close> from \<open>t_st\<close> to \<open>T - 1\<close> of
  \<open>delta[t] * (discount * gae_lambda) ^ (t - t_st)\<close>, where \<open>delta\<close> are the TD residuals of
  the same call. No mask occurs in the sum.
\<close>

theorem advantages_nested_sum:
  assumes "complete_rollout T n k (memory ag)"
    and "get_newest_state cfg ag = Inr s" and "length (snd (ac_model cfg s)) = n"
  shows "\<exists>deltas advs lps ents ag'.
           rollout_deltas cfg ag = Inr deltas
         \<and> aggregate_experiences cfg ag = Inr ((advs, lps, ents), ag')
         \<and> length advs = T
         \<and> (\<forall>t_st<T. \<forall>w<n. advs ! t_st ! w =
               (\<Sum>t = t_st..<T. deltas ! t ! w * (discount cfg * gae_lambda cfg) ^ (t - t_st)))"
proof -
  note N = newest_state_bootstrap[OF assms(2)]
  have bv: "length (bootstrap_value cfg ag) = n" using assms(3) N(2) by simp
  note A = aggregate_ok[OF assms(1) N(1) bv]
  show ?thesis
    by (intro exI conjI, rule A(1), rule A(2)) (simp_all add: nth_adv_row)
qed

lemma demo_complete: "complete_rollout 2 1 1 (memory demo_agent)"
  by (simp add: complete_rollout_def demo_agent_def)

lemma demo_newest: "get_newest_state (demo_cfg False) demo_agent = Inr [0]"
  by (simp add: get_newest_state_def demo_agent_def demo_cfg_def)

lemma demo_model: "length (snd (ac_model (demo_cfg False) [0])) = 1"
  by (simp add: demo_cfg_def)

lemma nth_deltas_of:
  assumes c: "complete_rollout T n k (memory ag)" and bv: "length (bootstrap_value cfg ag) = n"
    and w: "w < n"
  shows "t < T - 1 \<Longrightarrow> deltas_of cfg ag ! t ! w =
      mem_reward (memory ag) ! t ! w
      + sum_list (mem_value (memory ag) ! (t + 1) ! w)
        * (1 - (if mem_terminal (memory ag) ! t ! w then 1 else 0))
      - sum_list (mem_value (memory ag) ! t ! w)"
    and "deltas_of cfg ag ! (T - 1) ! w =
      mem_reward (memory ag) ! (T - 1) ! w
      + bootstrap_value cfg ag ! w
        * (1 - (if mem_terminal (memory ag) ! (T - 1) ! w then 1 else 0))
      - sum_list (mem_value (memory ag) ! (T - 1) ! w)"
proof -
  let ?m = "memory ag"
  note R = rollout_rows[OF c]
  have lens: "length (mem_terminal ?m) = T" "length (mem_value ?m) = T"
    using c by (simp_all add: complete_rollout_def)
  have rows: "\<And>t. t < T \<Longrightarrow> length (mem_reward ?m ! t) = n \<and> length (masks_of ?m ! t) = n
      \<and> length (values_of ?m ! t) = n \<and> length (mem_terminal ?m ! t) = n \<and> length (mem_value ?m ! t) = n"
    using R lens by (auto simp: masks_of_def values_of_def)
  have m: "\<And>t. t < T \<Longrightarrow> masks_of ?m ! t ! w = 1 - (if mem_terminal ?m ! t ! w then 1 else 0)"
    using rows w lens by (simp add: masks_of_def)
  have v: "\<And>t. t < T \<Longrightarrow> values_of ?m ! t ! w = sum_list (mem_value ?m ! t ! w)"
    using rows w lens by (simp add: values_of_def)
  have ne: "mem_reward ?m \<noteq> []" "masks_of ?m \<noteq> []" "values_of ?m \<noteq> []" using R by auto
  have last: "last (mem_reward ?m) = mem_reward ?m ! (T - 1)" "last (masks_of ?m) = masks_of ?m ! (T - 1)"
    "last (values_of ?m) = values_of ?m ! (T - 1)"
    using ne R(1,2,3) by (simp_all add: last_conv_nth del: last_map)
  {
    assume t: "t < T - 1"
    then have "deltas_of cfg ag ! t = delta_row (mem_reward ?m ! t) (values_of ?m ! Suc t)
        (masks_of ?m ! t) (values_of ?m ! t)"
      using R(1) by (simp add: deltas_of_def Let_def nth_append)
    moreover have "t < T" "Suc t < T" using t by auto
    ultimately show "deltas_of cfg ag ! t ! w =
      mem_reward ?m ! t ! w + sum_list (mem_value ?m ! (t + 1) ! w)
        * (1 - (if mem_terminal ?m ! t ! w then 1 else 0)) - sum_list (mem_value ?m ! t ! w)"
      using rows w by (simp add: nth_delta_row[where n = n] m v)
  }
  have "deltas_of cfg ag ! (T - 1) = delta_row (last (mem_reward ?m)) (bootstrap_value cfg ag)
        (last (masks_of ?m)) (last (values_of ?m))"
    using R(1) by (simp add: deltas_of_def Let_def nth_append)
  moreover have "T - 1 < T" using R(7) by simp
  ultimately show "deltas_of cfg ag ! (T - 1) ! w =
      mem_reward ?m ! (T - 1) ! w + bootstrap_value cfg ag ! w
        * (1 - (if mem_terminal ?m ! (T - 1) ! w then 1 else 0)) - sum_list (mem_value ?m ! (T - 1) ! w)"
    using rows[of "T - 1"] w bv by (simp add: last nth_delta_row[where n = n] m v)
qed

text \<open>
  C2. For a completed rollout, the TD residuals of the call are
  \<open>reward[t] + value[t+1] * (1 - terminal[t]) - value[t]\<close> for \<open>t < T - 1\<close>, with the cached
  values of the store, and \<open>reward[T-1] + V_T * (1 - terminal[T-1]) - value[T-1]\<close> for the
  last timestep, where \<open>V_T\<close> is the value the model gives to the state that
  \<^verbatim>\<open>get_newest_state\<close> builds from the newest observation.
\<close>

theorem td_residuals_bootstrap:
  assumes "complete_rollout T n k (memory ag)"
    and "get_newest_state cfg ag = Inr s" and "length (snd (ac_model cfg s)) = n"
  shows "\<exists>deltas. rollout_deltas cfg ag = Inr deltas \<and> length deltas = T
     \<and> (\<forall>t<T - 1. \<forall>w<n. deltas ! t ! w =
          mem_reward (memory ag) ! t ! w
          + sum_list (mem_value (memory ag) ! (t + 1) ! w)
            * (1 - (if mem_terminal (memory ag) ! t ! w then 1 else 0))
          - sum_list (mem_value (memory ag) ! t ! w))
     \<and> (\<forall>w<n. deltas ! (T - 1) ! w =
          mem_reward (memory ag) ! (T - 1) ! w
          + sum_list (snd (ac_model cfg s) ! w)
            * (1 - (if mem_terminal (memory ag) ! (T - 1) ! w then 1 else 0))
          - sum_list (mem_value (memory ag) ! (T - 1) ! w))
     \<and> (\<exists>obs. new_obs ag = Some obs \<and> s = get_recent_state cfg (memory ag) obs)"
proof -
  note N = newest_state_bootstrap[OF assms(2)]
  have bv: "length (bootstrap_value cfg ag) = n" using assms(3) N(2) by simp
  note A = aggregate_ok[OF assms(1) N(1) bv]
  note D = deltas_of_rows[OF assms(1) bv]
  have b: "\<And>w. w < n \<Longrightarrow> bootstrap_value cfg ag ! w = sum_list (snd (ac_model cfg s) ! w)"
    using assms(3) by (simp add: N(2))
  show ?thesis
  proof (rule exI[of _ "deltas_of cfg ag"], intro conjI allI impI)
    show "rollout_deltas cfg ag = Inr (deltas_of cfg ag)" by (rule A(1))
    show "length (deltas_of cfg ag) = T" by (rule D(1))
    show "\<exists>obs. new_obs ag = Some obs \<and> s = get_recent_state cfg (memory ag) obs" by (rule N(3))
  next
    fix t w assume "t < T - 1" "w < n"
    then show "deltas_of cfg ag ! t ! w = mem_reward (memory ag) ! t ! w
          + sum_list (mem_value (memory ag) ! (t + 1) ! w)
            * (1 - (if mem_terminal (memory ag) ! t ! w then 1 else 0))
          - sum_list (mem_value (memory ag) ! t ! w)"
      using nth_deltas_of(1)[OF assms(1) bv] by blast
  next
    fix w assume w: "w < n"
    show "deltas_of cfg ag ! (T - 1) ! w = mem_reward (memory ag) ! (T - 1) ! w
          + sum_list (snd (ac_model cfg s) ! w)
            * (1 - (if mem_terminal (memory ag) ! (T - 1) ! w then 1 else 0))
          - sum_list (mem_value (memory ag) ! (T - 1) ! w)"
      using nth_deltas_of(2)[OF assms(1) bv w] b[OF w] by simp
  qed
qed

subsection \<open>The concrete scenario of the spec, evaluated\<close>

lemma scenario_complete: "complete_rollout 3 2 1 (memory scenario_agent)"
  by (simp add: complete_rollout_def scenario_agent_def numeral_2_eq_2)

lemma scenario_newest: "get_newest_state scenario_cfg scenario_agent = Inr [0, 0]"
  by (simp add: get_newest_state_def scenario_agent_def scenario_cfg_def demo_cfg_def)

lemma scenario_model: "length (snd (ac_model scenario_cfg [0, 0])) = 2"
  by (simp add: scenario_cfg_def)

lemma scenario_deltas:
  "rollout_deltas scenario_cfg scenario_agent = Inr [[11 / 10, 0], [11 / 10, 0], [11 / 10, 49 / 10]]"
  by (simp add: rollout_deltas_def mem_sample_def read_rollout_def np_array_def torch_stack_def
      td_residuals_def delta_step_def get_row_def bcast_def last_row_def get_newest_state_def
      scenario_agent_def scenario_cfg_def demo_cfg_def init_agent_def upt_rec Let_def)

lemma scenario_aggregate:
  "aggregate_experiences scenario_cfg scenario_agent =
     Inr (([[124301771 / 40000000, 173369889 / 40000000],
            [42691 / 20000, 92169 / 20000],
            [11 / 10, 49 / 10]],
           [[0, 0], [0, 0], [0, 0]], [[0, 0], [0, 0], [0, 0]]),
          scenario_agent\<lparr>memory := mem_reset\<rparr>)"
  by (simp add: aggregate_experiences_def mem_sample_def read_rollout_def np_array_def torch_stack_def
      td_residuals_def delta_step_def get_row_def bcast_def last_row_def get_newest_state_def
      gae_advantages_def stack_advs_def acc_add_def power2_eq_square
      scenario_agent_def scenario_cfg_def demo_cfg_def init_agent_def upt_rec Let_def)

theorem advantages_nested_sum_witness:
  "complete_rollout 3 2 1 (memory scenario_agent)
   \<and> get_newest_state scenario_cfg scenario_agent = Inr [0, 0]
   \<and> (\<exists>advs lps ents ag'.
         aggregate_experiences scenario_cfg scenario_agent = Inr ((advs, lps, ents), ag')
       \<and> length advs = 3
       \<and> advs ! 0 ! 0 = 124301771 / 40000000 \<and> advs ! 0 ! 1 = 173369889 / 40000000
       \<and> advs ! 1 ! 0 = 42691 / 20000 \<and> advs ! 1 ! 1 = 92169 / 20000
       \<and> advs ! 2 ! 0 = 11 / 10 \<and> advs ! 2 ! 1 = 49 / 10)"
proof -
  from advantages_nested_sum[OF scenario_complete scenario_newest scenario_model]
  obtain deltas advs lps ents ag' where
    d: "rollout_deltas scenario_cfg scenario_agent = Inr deltas"
    and a: "aggregate_experiences scenario_cfg scenario_agent = Inr ((advs, lps, ents), ag')"
    and l: "length advs = 3"
    and f: "\<forall>t_st<3. \<forall>w<2. advs ! t_st ! w =
               (\<Sum>t = t_st..<3. deltas ! t ! w
                  * (discount scenario_cfg * gae_lambda scenario_cfg) ^ (t - t_st))"
    by blast
  from d have dv: "deltas = [[11 / 10, 0], [11 / 10, 0], [11 / 10, 49 / 10]]"
    by (simp add: scenario_deltas)
  have c: "discount scenario_cfg * gae_lambda scenario_cfg = 1881 / 2000"
    by (simp add: scenario_cfg_def)
  have s: "(\<Sum>t = 0..<3. g t) = g 0 + g 1 + g 2" "(\<Sum>t = Suc 0..<3. g t) = g (Suc 0) + g 2"
    "(\<Sum>t = 2..<3. g t) = g 2" for g :: "nat \<Rightarrow> real"
    by (simp_all add: numeral_3_eq_3 numeral_2_eq_2)
  have lt: "(0::nat) < 3" "(1::nat) < 3" "(2::nat) < 3" "(0::nat) < 2" "(1::nat) < 2" by simp_all
  have "advs ! 0 ! 0 = 124301771 / 40000000" "advs ! 0 ! 1 = 173369889 / 40000000"
    "advs ! 1 ! 0 = 42691 / 20000" "advs ! 1 ! 1 = 92169 / 20000"
    "advs ! 2 ! 0 = 11 / 10" "advs ! 2 ! 1 = 49 / 10"
    using f[rule_format, OF lt(1) lt(4)] f[rule_format, OF lt(1) lt(5)]
      f[rule_format, OF lt(2) lt(4)] f[rule_format, OF lt(2) lt(5)]
      f[rule_format, OF lt(3) lt(4)] f[rule_format, OF lt(3) lt(5)]
    by (simp_all add: s c dv power2_eq_square)
  with a l scenario_complete scenario_newest show ?thesis by blast
qed

theorem td_residuals_bootstrap_witness:
  "complete_rollout 3 2 1 (memory scenario_agent)
   \<and> get_newest_state scenario_cfg scenario_agent = Inr [0, 0]
   \<and> (\<exists>deltas. rollout_deltas scenario_cfg scenario_agent = Inr deltas \<and> length deltas = 3
        \<and> deltas ! 0 ! 0 = 11 / 10 \<and> deltas ! 1 ! 0 = 11 / 10 \<and> deltas ! 2 ! 0 = 11 / 10
        \<and> deltas ! 0 ! 1 = 0 \<and> deltas ! 1 ! 1 = 0 \<and> deltas ! 2 ! 1 = 49 / 10)"
proof -
  let ?m = "memory scenario_agent"
  from td_residuals_bootstrap[OF scenario_complete scenario_newest scenario_model]
  obtain deltas where d: "rollout_deltas scenario_cfg scenario_agent = Inr deltas" "length deltas = 3"
    and a: "\<forall>t<3 - 1. \<forall>w<2. deltas ! t ! w =
          mem_reward ?m ! t ! w
          + sum_list (mem_value ?m ! (t + 1) ! w) * (1 - (if mem_terminal ?m ! t ! w then 1 else 0))
          - sum_list (mem_value ?m ! t ! w)"
    and b: "\<forall>w<2. deltas ! (3 - 1) ! w =
          mem_reward ?m ! (3 - 1) ! w
          + sum_list (snd (ac_model scenario_cfg [0, 0]) ! w)
            * (1 - (if mem_terminal ?m ! (3 - 1) ! w then 1 else 0))
          - sum_list (mem_value ?m ! (3 - 1) ! w)"
    by blast
  have lt: "(0::nat) < 3 - 1" "(1::nat) < 3 - 1" "(0::nat) < 2" "(1::nat) < 2" by simp_all
  have "deltas ! 0 ! 0 = 11 / 10" "deltas ! 1 ! 0 = 11 / 10" "deltas ! 0 ! 1 = 0" "deltas ! 1 ! 1 = 0"
    using a[rule_format, OF lt(1) lt(3)] a[rule_format, OF lt(2) lt(3)]
      a[rule_format, OF lt(1) lt(4)] a[rule_format, OF lt(2) lt(4)]
    by (simp_all add: scenario_agent_def)
  moreover have "deltas ! 2 ! 0 = 11 / 10" "deltas ! 2 ! 1 = 49 / 10"
    using b[rule_format, OF lt(3)] b[rule_format, OF lt(4)]
    by (simp_all add: scenario_agent_def scenario_cfg_def)
  ultimately show ?thesis using d scenario_complete scenario_newest by blast
qed

subsection \<open>Single-step TD when gae_lambda is 0\<close>

lemma adv_row_lambda_zero:
  assumes "t < T" "T \<le> length deltas" "\<forall>d\<in>set deltas. length d = n"
  shows "adv_row 0 deltas T n t = deltas ! t"
proof -
  have len: "length (deltas ! t) = n" using assms by simp
  have "(\<Sum>t' = t..<T. deltas ! t' ! w * 0 ^ (t' - t)) = deltas ! t ! w" for w
  proof -
    have "(\<Sum>t' = t..<T. deltas ! t' ! w * 0 ^ (t' - t))
        = deltas ! t ! w * 0 ^ (t - t) + (\<Sum>t' = Suc t..<T. deltas ! t' ! w * 0 ^ (t' - t))"
      using assms(1) by (rule sum.atLeast_Suc_lessThan)
    also have "(\<Sum>t' = Suc t..<T. deltas ! t' ! w * 0 ^ (t' - t)) = (\<Sum>t' = Suc t..<T. 0)"
      by (rule sum.cong) (auto simp: power_0_left)
    finally show ?thesis by simp
  qed
  then have "adv_row 0 deltas T n t = map ((!) (deltas ! t)) [0..<length (deltas ! t)]"
    by (simp add: adv_row_def len)
  then show ?thesis by (simp only: map_nth)
qed

text \<open>
  C9. When \<open>gae_lambda = 0\<close>, the advantages a completed rollout yields are exactly its TD
  residuals: the tensor returned first by \<^verbatim>\<open>aggregate_experiences\<close> is the list of
  residuals of the same call. In the nested sum the factor of the first term is
  \<open>0 ^ 0 = 1\<close> and the factor of every later term is 0 (lemma \<open>adv_row_lambda_zero\<close>).
\<close>

theorem lambda_zero_single_step:
  assumes "complete_rollout T n k (memory ag)"
    and "get_newest_state cfg ag = Inr s" and "length (snd (ac_model cfg s)) = n"
    and "gae_lambda cfg = 0"
  shows "\<exists>deltas lps ents ag'.
           rollout_deltas cfg ag = Inr deltas
         \<and> aggregate_experiences cfg ag = Inr ((deltas, lps, ents), ag')
         \<and> length deltas = T"
proof -
  note N = newest_state_bootstrap[OF assms(2)]
  have bv: "length (bootstrap_value cfg ag) = n" using assms(3) N(2) by simp
  note A = aggregate_ok[OF assms(1) N(1) bv]
  note D = deltas_of_rows[OF assms(1) bv]
  have "map (adv_row 0 (deltas_of cfg ag) T n) [0..<T] = map ((!) (deltas_of cfg ag)) [0..<T]"
    using D by (intro map_cong[OF refl] adv_row_lambda_zero) auto
  also have "\<dots> = deltas_of cfg ag" using D(1) map_nth[of "deltas_of cfg ag"] by simp
  finally have "aggregate_experiences cfg ag =
      Inr ((deltas_of cfg ag, mem_log_prob (memory ag), mem_entropy (memory ag)), ag\<lparr>memory := mem_reset\<rparr>)"
    using A(2) assms(4) by simp
  with A(1) D(1) show ?thesis by blast
qed

lemma demo0_newest: "get_newest_state ((demo_cfg False)\<lparr>gae_lambda := 0\<rparr>) demo_agent = Inr [0]"
  by (simp add: get_newest_state_def demo_agent_def demo_cfg_def)

lemma demo0_model: "length (snd (ac_model ((demo_cfg False)\<lparr>gae_lambda := 0\<rparr>) [0])) = 1"
  by (simp add: demo_cfg_def)

theorem lambda_zero_single_step_witness:
  "complete_rollout 2 1 1 (memory demo_agent)
   \<and> get_newest_state ((demo_cfg False)\<lparr>gae_lambda := 0\<rparr>) demo_agent = Inr [0]
   \<and> gae_lambda ((demo_cfg False)\<lparr>gae_lambda := 0\<rparr>) = 0
   \<and> (\<exists>deltas lps ents ag'.
           rollout_deltas ((demo_cfg False)\<lparr>gae_lambda := 0\<rparr>) demo_agent = Inr deltas
         \<and> aggregate_experiences ((demo_cfg False)\<lparr>gae_lambda := 0\<rparr>) demo_agent
             = Inr ((deltas, lps, ents), ag')
         \<and> length deltas = 2)"
  using lambda_zero_single_step[OF demo_complete demo0_newest demo0_model] demo_complete demo0_newest
  by simp

subsection \<open>Nested sum and backward recurrence\<close>

lemma nested_sums_Cons:
  "nested_sums c (d # ds) =
     (d + c * (case nested_sums c ds of [] \<Rightarrow> 0 | a # x \<Rightarrow> a)) # nested_sums c ds"
proof -
  let ?L = "length ds"
  have up: "[0..<Suc ?L] = 0 # map Suc [0..<?L]"
    by (simp add: upt_conv_Cons map_Suc_upt del: upt_Suc)
  have hd_eq: "(case nested_sums c ds of [] \<Rightarrow> 0 | a # x \<Rightarrow> a) = (\<Sum>t = 0..<?L. ds ! t * c ^ t)"
  proof (cases ds)
    case Nil
    then show ?thesis by (simp add: nested_sums_def)
  next
    case (Cons e es)
    then have "[0..<?L] = 0 # [Suc 0..<?L]" by (simp add: upt_conv_Cons del: upt_Suc)
    then show ?thesis by (simp add: nested_sums_def del: upt_Suc)
  qed
  have head: "(\<Sum>t = 0..<Suc ?L. (d # ds) ! t * c ^ (t - 0)) = d + c * (\<Sum>t = 0..<?L. ds ! t * c ^ t)"
  proof -
    have "(\<Sum>t = 0..<Suc ?L. (d # ds) ! t * c ^ (t - 0))
        = (d # ds) ! 0 * c ^ (0 - 0) + (\<Sum>t = 0..<?L. (d # ds) ! Suc t * c ^ (Suc t - 0))"
      by (simp only: sum.atLeast0_lessThan_Suc_shift comp_def)
    also have "(\<Sum>t = 0..<?L. (d # ds) ! Suc t * c ^ (Suc t - 0)) = c * (\<Sum>t = 0..<?L. ds ! t * c ^ t)"
      by (simp add: sum_distrib_left mult_ac)
    finally show ?thesis by simp
  qed
  have tail: "(\<Sum>t = Suc u..<Suc ?L. (d # ds) ! t * c ^ (t - Suc u)) = (\<Sum>t = u..<?L. ds ! t * c ^ (t - u))" for u
    by (simp only: sum.shift_bounds_Suc_ivl nth_Cons_Suc diff_Suc_Suc)
  have "nested_sums c (d # ds) =
      (\<Sum>t = 0..<Suc ?L. (d # ds) ! t * c ^ (t - 0))
      # map (\<lambda>u. \<Sum>t = Suc u..<Suc ?L. (d # ds) ! t * c ^ (t - Suc u)) [0..<?L]"
    unfolding nested_sums_def length_Cons up by (simp only: list.map map_map comp_def)
  also have "\<dots> = (d + c * (\<Sum>t = 0..<?L. ds ! t * c ^ t)) # nested_sums c ds"
    by (simp only: head tail nested_sums_def)
  finally show ?thesis by (simp only: hd_eq)
qed

lemma nested_sums_unmasked:
  "nested_sums c ds = spec_backward_recurrence c ds (replicate (length ds) 1)"
proof (induction ds)
  case Nil
  show ?case by (simp add: nested_sums_def)
next
  case (Cons d ds)
  show ?case by (simp add: nested_sums_Cons Cons.IH Let_def)
qed

lemma masked_eq_unmasked:
  assumes "length ms = length ds" "\<forall>t. Suc t < length ds \<longrightarrow> ms ! t = 1"
  shows "spec_backward_recurrence c ds ms = spec_backward_recurrence c ds (replicate (length ds) 1)"
  using assms
proof (induction ds arbitrary: ms)
  case Nil
  show ?case by simp
next
  case (Cons d ds)
  from Cons.prems(1) obtain m ms' where ms: "ms = m # ms'" and len: "length ms' = length ds"
    by (cases ms) auto
  have rest: "spec_backward_recurrence c ds ms' = spec_backward_recurrence c ds (replicate (length ds) 1)"
  proof (rule Cons.IH[OF len], intro allI impI)
    fix t assume "Suc t < length ds"
    then have "Suc (Suc t) < length (d # ds)" by simp
    with Cons.prems(2) have "ms ! Suc t = 1" by blast
    then show "ms' ! t = 1" by (simp add: ms)
  qed
  show ?case
  proof (cases ds)
    case Nil
    then show ?thesis by (simp add: ms)
  next
    case (Cons e es)
    then have "Suc 0 < length (d # ds)" by simp
    with Cons.prems(2) have "ms ! 0 = 1" by blast
    then have "m = 1" by (simp add: ms)
    then show ?thesis by (simp add: ms rest Let_def)
  qed
qed

lemma column_advs:
  assumes "w < n" "length deltas = T"
  shows "column w (map (adv_row c deltas T n) [0..<T]) = nested_sums c (column w deltas)"
proof -
  have "column w (map (adv_row c deltas T n) [0..<T])
      = map (\<lambda>t_st. \<Sum>t = t_st..<T. deltas ! t ! w * c ^ (t - t_st)) [0..<T]"
    using assms(1) by (simp add: column_def nth_adv_row)
  also have "\<dots> = map (\<lambda>t_st. \<Sum>t = t_st..<T. column w deltas ! t * c ^ (t - t_st)) [0..<T]"
    using assms(2) by (intro map_cong[OF refl] sum.cong) (auto simp: column_def)
  finally show ?thesis using assms(2) by (simp add: nested_sums_def column_def)
qed

text \<open>
  C3, as amended. For a completed rollout and every worker, the advantages of the code are
  the backward recurrence without the mask factor, \<open>adv[t] = delta[t] + discount *
  gae_lambda * adv[t+1]\<close> with \<open>adv[T] = 0\<close>; they are the masked recurrence of the spec
  whenever no \<open>terminal[t]\<close> with \<open>t < T - 1\<close> is true for the worker. The equalities are
  over the reals, that is, up to the order of the floating-point additions.
\<close>

theorem advantages_backward_recurrence:
  assumes "complete_rollout T n k (memory ag)"
    and "get_newest_state cfg ag = Inr s" and "length (snd (ac_model cfg s)) = n"
    and "w < n"
  shows "\<exists>deltas advs lps ents ag'.
           rollout_deltas cfg ag = Inr deltas
         \<and> aggregate_experiences cfg ag = Inr ((advs, lps, ents), ag')
         \<and> column w advs = spec_backward_recurrence (discount cfg * gae_lambda cfg)
                              (column w deltas) (replicate T 1)
         \<and> ((\<forall>t. Suc t < T \<longrightarrow> \<not> mem_terminal (memory ag) ! t ! w) \<longrightarrow>
              column w advs = spec_backward_recurrence (discount cfg * gae_lambda cfg)
                                (column w deltas) (column w (masks_of (memory ag))))"
proof -
  let ?c = "discount cfg * gae_lambda cfg"
  note N = newest_state_bootstrap[OF assms(2)]
  have bv: "length (bootstrap_value cfg ag) = n" using assms(3) N(2) by simp
  note A = aggregate_ok[OF assms(1) N(1) bv]
  note D = deltas_of_rows[OF assms(1) bv]
  note R = rollout_rows[OF assms(1)]
  let ?advs = "map (adv_row ?c (deltas_of cfg ag) T n) [0..<T]"
  have lc: "length (column w (deltas_of cfg ag)) = T" using D(1) by (simp add: column_def)
  have un: "column w ?advs = spec_backward_recurrence ?c (column w (deltas_of cfg ag)) (replicate T 1)"
    by (simp only: column_advs[OF assms(4) D(1)] nested_sums_unmasked lc)
  have ma: "column w ?advs = spec_backward_recurrence ?c (column w (deltas_of cfg ag))
        (column w (masks_of (memory ag)))"
    if nt: "\<forall>t. Suc t < T \<longrightarrow> \<not> mem_terminal (memory ag) ! t ! w"
  proof -
    have lt: "length (mem_terminal (memory ag)) = T"
      using assms(1) by (simp add: complete_rollout_def)
    have tl: "\<And>t. t < T \<Longrightarrow> length (mem_terminal (memory ag) ! t) = n"
      using assms(1) lt by (simp add: complete_rollout_def list_all_iff)
    have "\<forall>t. Suc t < length (column w (deltas_of cfg ag)) \<longrightarrow> column w (masks_of (memory ag)) ! t = 1"
    proof (intro allI impI)
      fix t assume "Suc t < length (column w (deltas_of cfg ag))"
      then have t: "Suc t < T" by (simp add: lc)
      then have "t < length (mem_terminal (memory ag))" "w < length (mem_terminal (memory ag) ! t)"
        using lt tl[of t] assms(4) by simp_all
      moreover have "\<not> mem_terminal (memory ag) ! t ! w" using nt t by blast
      ultimately show "column w (masks_of (memory ag)) ! t = 1"
        by (simp add: column_def masks_of_def)
    qed
    moreover have "length (column w (masks_of (memory ag))) = length (column w (deltas_of cfg ag))"
      using R(2) lc by (simp add: column_def)
    ultimately have "spec_backward_recurrence ?c (column w (deltas_of cfg ag)) (column w (masks_of (memory ag)))
        = spec_backward_recurrence ?c (column w (deltas_of cfg ag))
            (replicate (length (column w (deltas_of cfg ag))) 1)"
      by (intro masked_eq_unmasked)
    then show ?thesis unfolding lc by (simp only: un)
  qed
  show ?thesis
    by (rule exI[of _ "deltas_of cfg ag"], rule exI[of _ ?advs], intro exI conjI impI,
        rule A(1), rule A(2), rule un, erule ma)
qed

theorem advantages_backward_recurrence_witness:
  "complete_rollout 2 1 1 (memory (demo_agent\<lparr>memory := (memory demo_agent)\<lparr>mem_terminal := [[False], [True]]\<rparr>\<rparr>))
   \<and> (\<exists>deltas advs lps ents ag'.
         rollout_deltas (demo_cfg False)
             (demo_agent\<lparr>memory := (memory demo_agent)\<lparr>mem_terminal := [[False], [True]]\<rparr>\<rparr>) = Inr deltas
       \<and> aggregate_experiences (demo_cfg False)
             (demo_agent\<lparr>memory := (memory demo_agent)\<lparr>mem_terminal := [[False], [True]]\<rparr>\<rparr>)
           = Inr ((advs, lps, ents), ag')
       \<and> column 0 advs = spec_backward_recurrence (1 / 2) (column 0 deltas) [1, 1]
       \<and> column 0 advs = spec_backward_recurrence (1 / 2) (column 0 deltas) [1, 0])"
proof -
  let ?ag = "demo_agent\<lparr>memory := (memory demo_agent)\<lparr>mem_terminal := [[False], [True]]\<rparr>\<rparr>"
  have c: "complete_rollout 2 1 1 (memory ?ag)"
    by (simp add: complete_rollout_def demo_agent_def)
  have n: "get_newest_state (demo_cfg False) ?ag = Inr [0]"
    by (simp add: get_newest_state_def demo_agent_def demo_cfg_def)
  have nt: "\<forall>t. Suc t < 2 \<longrightarrow> \<not> mem_terminal (memory ?ag) ! t ! 0"
    by (simp add: demo_agent_def less_Suc_eq numeral_2_eq_2)
  have m: "column 0 (masks_of (memory ?ag)) = [1, 0]"
    by (simp add: column_def masks_of_def demo_agent_def)
  have d: "discount (demo_cfg False) * gae_lambda (demo_cfg False) = 1 / 2"
    by (simp add: demo_cfg_def)
  have r: "replicate 2 (1::real) = [1, 1]" by (simp add: numeral_2_eq_2)
  have w: "(0::nat) < 1" by simp
  from advantages_backward_recurrence[OF c n demo_model w] nt
  show ?thesis unfolding m d r using c by blast
qed

text \<open>
  C3 as stated fails: for one worker whose episode ends at the first of two timesteps,
  with residuals 0 and 1 and decay rate 1/2, the code returns the advantages 1/2 and 1,
  and the masked recurrence of the spec gives 0 and 1.
\<close>

theorem masked_recurrence_differs:
  "rollout_deltas (demo_cfg False) demo_agent = Inr [[0], [1]]
   \<and> aggregate_experiences (demo_cfg False) demo_agent
       = Inr (([[1 / 2], [1]], [[0], [0]], [[0], [0]]), demo_agent\<lparr>memory := mem_reset\<rparr>)
   \<and> mem_terminal (memory demo_agent) = [[True], [False]]
   \<and> column 0 [[1 / 2], [1]] \<noteq>
       spec_backward_recurrence (discount (demo_cfg False) * gae_lambda (demo_cfg False))
         (column 0 [[0], [1]]) (column 0 (masks_of (memory demo_agent)))"
proof -
  have bv: "bootstrap_value (demo_cfg False) demo_agent = [0]"
    by (simp add: bootstrap_value_def demo_agent_def demo_cfg_def)
  have no: "new_obs demo_agent \<noteq> None" by (simp add: demo_agent_def)
  have l: "length (bootstrap_value (demo_cfg False) demo_agent) = 1" by (simp add: bv)
  have d: "deltas_of (demo_cfg False) demo_agent = [[0], [1]]"
    unfolding deltas_of_def Let_def bv
    by (simp add: delta_row_def masks_of_def values_of_def demo_agent_def)
  have a: "map (adv_row (discount (demo_cfg False) * gae_lambda (demo_cfg False)) [[0], [1]] 2 1) [0..<2]
      = [[1 / 2], [1]]"
    by (simp add: adv_row_def demo_cfg_def upt_rec numeral_2_eq_2)
  note A = aggregate_ok[OF demo_complete no l, unfolded d a]
  have "column 0 [[1 / 2], [1]] \<noteq>
       spec_backward_recurrence (discount (demo_cfg False) * gae_lambda (demo_cfg False))
         (column 0 [[0], [1]]) (column 0 (masks_of (memory demo_agent)))"
    by (simp add: column_def masks_of_def demo_agent_def demo_cfg_def Let_def)
  moreover have "mem_terminal (memory demo_agent) = [[True], [False]]" by (simp add: demo_agent_def)
  moreover have "mem_log_prob (memory demo_agent) = [[0], [0]]" "mem_entropy (memory demo_agent) = [[0], [0]]"
    by (simp_all add: demo_agent_def)
  ultimately show ?thesis using A by simp
qed

subsection \<open>predict and observe\<close>

lemma record_worker_memory:
  "memory (agent_after (record_worker cfg a r tm i ag)) = memory ag"
  by (simp add: record_worker_def Let_def emit_def appended_def agent_after_def)

lemma record_loop_memory:
  "memory (agent_after (record_loop cfg a r tm js ag)) = memory ag"
proof (induction js arbitrary: ag)
  case Nil
  show ?case by (simp add: agent_after_def)
next
  case (Cons i js)
  show ?case
  proof (cases "record_worker cfg a r tm i ag")
    case (Inl p)
    with record_worker_memory[of cfg a r tm i ag] show ?thesis by simp
  next
    case (Inr ag1)
    with record_worker_memory[of cfg a r tm i ag] have "memory ag1 = memory ag"
      by (simp add: agent_after_def)
    with Cons.IH[of ag1] Inr show ?thesis by simp
  qed
qed

lemma record_agent_memory:
  "memory (agent_after (record_agent cfg ag a r tm)) = memory ag"
proof (cases "record_loop cfg a r tm [0..<length a] ag")
  case (Inl p)
  with record_loop_memory[of cfg a r tm "[0..<length a]" ag] show ?thesis
    by (simp add: record_agent_def)
next
  case (Inr ag1)
  with record_loop_memory[of cfg a r tm "[0..<length a]" ag] show ?thesis
    by (simp add: record_agent_def agent_after_def)
qed

lemma agent_after_simps: "agent_after (Inl (e, ag)) = ag" "agent_after (Inr ag) = ag"
  by (simp_all add: agent_after_def)

lemma init_cached:
  "mem_value (memory (init_agent g)) = []" "mem_log_prob (memory (init_agent g)) = []"
  "mem_entropy (memory (init_agent g)) = []"
  by (simp_all add: init_agent_def mem_reset_def)

lemma observe_memory:
  "memory (agent_after (observe cfg ag obs a r tm info training)) =
     (case processor cfg of
        None \<Rightarrow> if obs = [] then mem_append (memory ag) [] a r tm training else memory ag
      | Some p \<Rightarrow> mem_append (memory ag) (map p obs) a r tm training)"
  by (simp add: observe_def record_agent_memory agent_after_simps split: option.splits)

lemma observe_no_processor:
  "processor cfg = None \<Longrightarrow> obs \<noteq> [] \<Longrightarrow>
     observe cfg ag obs a r tm info training = Inl (AttributeError, ag)"
  by (simp add: observe_def)

lemma predict_memory:
  "memory (snd (predict cfg ag obs False)) = memory ag"
  "memory (snd (predict cfg ag obs True)) =
     (let state = get_recent_state cfg (memory ag) (case processor cfg of None \<Rightarrow> obs | Some p \<Rightarrow> map p obs);
          dist = fst (ac_model cfg state); value = snd (ac_model cfg state)
      in store_value_log_prob (memory ag) value
           (dist_log_prob cfg dist (fst (dist_sample cfg dist (rng ag)))) (dist_entropy cfg dist))"
  "fst (predict cfg ag obs training) =
     fst (dist_sample cfg (fst (ac_model cfg (get_recent_state cfg (memory ag)
            (case processor cfg of None \<Rightarrow> obs | Some p \<Rightarrow> map p obs)))) (rng ag))"
  by (simp_all add: predict_def Let_def split_beta)

lemma cached_untouched:
  "mem_value (mem_append m obs a r tm training) = mem_value m"
  "mem_log_prob (mem_append m obs a r tm training) = mem_log_prob m"
  "mem_entropy (mem_append m obs a r tm training) = mem_entropy m"
  by (simp_all add: mem_append_def)

lemma observe_cached:
  "mem_value (memory (agent_after (observe cfg ag obs a r tm info training))) = mem_value (memory ag)"
  "mem_log_prob (memory (agent_after (observe cfg ag obs a r tm info training))) = mem_log_prob (memory ag)"
  "mem_entropy (memory (agent_after (observe cfg ag obs a r tm info training))) = mem_entropy (memory ag)"
  by (simp_all add: observe_memory cached_untouched split: option.splits)

lemma collect_eval_cached:
  "mem_value (memory (collect cfg False steps ag)) = mem_value (memory ag)
   \<and> mem_log_prob (memory (collect cfg False steps ag)) = mem_log_prob (memory ag)
   \<and> mem_entropy (memory (collect cfg False steps ag)) = mem_entropy (memory ag)"
proof (induction steps arbitrary: ag)
  case Nil
  show ?case by simp
next
  case (Cons st steps)
  obtain obs nobs r tm where st: "st = (obs, nobs, r, tm)" by (cases st)
  obtain action ag1 where p: "predict cfg ag obs False = (action, ag1)" by (cases "predict cfg ag obs False")
  then have m: "memory ag1 = memory ag" using predict_memory(1)[of cfg ag obs] by simp
  show ?case
    unfolding st using Cons.IH[of "agent_after (observe cfg ag1 nobs action r tm () False)"]
    by (simp add: p observe_cached m)
qed

text \<open>
  C10. \<^verbatim>\<open>predict(obs, training=False)\<close> leaves the store as it was and returns the
  action sampled from the model's distribution, whereas with \<open>training=True\<close> the model's
  value is appended to the cached values. Hence a rollout collected on a fresh agent with
  \<open>training=False\<close> throughout leaves the cached value, log-probability and entropy
  sequences empty.
\<close>

theorem predict_eval_caches_nothing:
  "memory (snd (predict cfg ag obs False)) = memory ag
   \<and> fst (predict cfg ag obs False) =
       fst (dist_sample cfg (fst (ac_model cfg (get_recent_state cfg (memory ag)
              (case processor cfg of None \<Rightarrow> obs | Some p \<Rightarrow> map p obs)))) (rng ag))
   \<and> mem_value (memory (snd (predict cfg ag obs True))) =
       mem_value (memory ag) @ [snd (ac_model cfg (get_recent_state cfg (memory ag)
              (case processor cfg of None \<Rightarrow> obs | Some p \<Rightarrow> map p obs)))]
   \<and> mem_value (memory (collect cfg False steps (init_agent g))) = []
   \<and> mem_log_prob (memory (collect cfg False steps (init_agent g))) = []
   \<and> mem_entropy (memory (collect cfg False steps (init_agent g))) = []"
  using collect_eval_cached[of cfg steps "init_agent g"]
  by (simp add: predict_memory init_cached store_value_log_prob_def Let_def)

theorem predict_eval_caches_nothing_witness:
  "memory (snd (predict (demo_cfg False) (init_agent ()) [5] False)) = mem_reset
   \<and> fst (predict (demo_cfg False) (init_agent ()) [5] False) = []
   \<and> mem_value (memory (snd (predict (demo_cfg False) (init_agent ()) [5] True))) = [[[0]]]
   \<and> mem_value (memory (collect (demo_cfg False) False [([5], [6], [1], [False])] (init_agent ()))) = []"
proof -
  note T = predict_eval_caches_nothing[of "demo_cfg False" "init_agent ()" "[5]" "[([5], [6], [1], [False])]" "()"]
  have m: "memory (init_agent () :: (nat, nat, unit) agent) = mem_reset"
    by (simp add: init_agent_def)
  from T have "memory (snd (predict (demo_cfg False) (init_agent ()) [5] False)) = mem_reset"
    by (simp only: m)
  moreover from T have "fst (predict (demo_cfg False) (init_agent ()) [5] False) = []"
    by (simp add: demo_cfg_def)
  moreover from T have "mem_value (memory (snd (predict (demo_cfg False) (init_agent ()) [5] True))) = [[[0]]]"
    by (simp add: demo_cfg_def m mem_reset_def)
  moreover from T have "mem_value (memory (collect (demo_cfg False) False [([5], [6], [1], [False])] (init_agent ()))) = []"
    by blast
  ultimately show ?thesis by blast
qed

text \<open>
  C5 fails on the code. With no processor configured, \<^verbatim>\<open>observe\<close> on one observation
  raises AttributeError at line 162 and appends nothing, while \<^verbatim>\<open>predict\<close> on the same
  observation returns: \<^verbatim>\<open>predict\<close> (line 148) and \<^verbatim>\<open>set_new_obs\<close> (line 193) test
  \<^verbatim>\<open>self.processor is not None\<close>, \<^verbatim>\<open>observe\<close> does not.
\<close>

theorem observe_without_processor_raises:
  "processor (demo_cfg False) = None
   \<and> observe (demo_cfg False) (init_agent ()) [5] [7] [1] [False] () True
       = Inl (AttributeError, init_agent ())
   \<and> fst (predict (demo_cfg False) (init_agent ()) [5] True) = []"
  by (simp add: observe_def predict_def demo_cfg_def Let_def)

subsection \<open>aggregate_experiences returns and resets\<close>

text \<open>
  With a processor configured: for a completed rollout, \<^verbatim>\<open>aggregate_experiences\<close> returns
  the nested-sum advantages together with the log-probabilities and the entropies cached in
  the store, three sequences of length \<open>T\<close> with one row over the workers per timestep, and
  leaves the store reset; a following \<^verbatim>\<open>predict\<close>/\<^verbatim>\<open>observe\<close> cycle leaves exactly
  one transition in the store, that of the cycle.
\<close>

lemma aggregate_then_cycle_with_processor:
  assumes "complete_rollout T n k (memory ag)"
    and "get_newest_state cfg ag = Inr s" and "length (snd (ac_model cfg s)) = n"
    and "processor cfg = Some p"
  shows "\<exists>deltas advs ag'.
           rollout_deltas cfg ag = Inr deltas
         \<and> aggregate_experiences cfg ag
             = Inr ((advs, mem_log_prob (memory ag), mem_entropy (memory ag)), ag')
         \<and> length advs = T \<and> length (mem_log_prob (memory ag)) = T
         \<and> length (mem_entropy (memory ag)) = T
         \<and> list_all (\<lambda>row. length row = n) advs
         \<and> (\<forall>t_st<T. \<forall>w<n. advs ! t_st ! w =
               (\<Sum>t = t_st..<T. deltas ! t ! w * (discount cfg * gae_lambda cfg) ^ (t - t_st)))
         \<and> ag' = ag\<lparr>memory := mem_reset\<rparr>
         \<and> memory (agent_after (observe cfg (snd (predict cfg ag' obs True)) next_obs
                          (fst (predict cfg ag' obs True)) reward terminal info True))
             = \<lparr>mem_obs = [map p next_obs], mem_action = [fst (predict cfg ag' obs True)],
                mem_reward = [reward], mem_terminal = [terminal],
                mem_value = [snd (ac_model cfg (get_recent_state cfg mem_reset (map p obs)))],
                mem_log_prob = [dist_log_prob cfg
                   (fst (ac_model cfg (get_recent_state cfg mem_reset (map p obs))))
                   (fst (predict cfg ag' obs True))],
                mem_entropy = [dist_entropy cfg
                   (fst (ac_model cfg (get_recent_state cfg mem_reset (map p obs))))]\<rparr>"
proof -
  note N = newest_state_bootstrap[OF assms(2)]
  have bv: "length (bootstrap_value cfg ag) = n" using assms(3) N(2) by simp
  note A = aggregate_ok[OF assms(1) N(1) bv]
  let ?advs = "map (adv_row (discount cfg * gae_lambda cfg) (deltas_of cfg ag) T n) [0..<T]"
  let ?ag' = "ag\<lparr>memory := mem_reset\<rparr>"
  have lens: "length (mem_log_prob (memory ag)) = T" "length (mem_entropy (memory ag)) = T"
    using assms(1) by (simp_all add: complete_rollout_def)
  have rows: "list_all (\<lambda>row. length row = n) ?advs"
    by (simp add: list_all_iff length_adv_row)
  have cyc: "memory (agent_after (observe cfg (snd (predict cfg ?ag' obs True)) next_obs
                          (fst (predict cfg ?ag' obs True)) reward terminal info True))
             = \<lparr>mem_obs = [map p next_obs], mem_action = [fst (predict cfg ?ag' obs True)],
                mem_reward = [reward], mem_terminal = [terminal],
                mem_value = [snd (ac_model cfg (get_recent_state cfg mem_reset (map p obs)))],
                mem_log_prob = [dist_log_prob cfg
                   (fst (ac_model cfg (get_recent_state cfg mem_reset (map p obs))))
                   (fst (predict cfg ?ag' obs True))],
                mem_entropy = [dist_entropy cfg
                   (fst (ac_model cfg (get_recent_state cfg mem_reset (map p obs))))]\<rparr>"
    by (simp add: observe_memory assms(4) predict_memory Let_def store_value_log_prob_def
        mem_append_def mem_reset_def)
  show ?thesis
    by (rule exI[of _ "deltas_of cfg ag"], rule exI[of _ ?advs], rule exI[of _ ?ag'],
        intro conjI, rule A(1), rule A(2))
       (simp_all add: lens rows cyc nth_adv_row)
qed

lemma refill_with_processor:
  "memory (agent_after (observe (refill_cfg\<lparr>processor := Some Suc\<rparr>)
       (snd (predict (refill_cfg\<lparr>processor := Some Suc\<rparr>) (scenario_agent\<lparr>memory := mem_reset\<rparr>) [5, 5] True))
       [6, 6] [7, 7] [1, 1] [False, False] () True))
   = \<lparr>mem_obs = [[7, 7]], mem_action = [[7, 7]], mem_reward = [[1, 1]],
       mem_terminal = [[False, False]],
       mem_value = [[[4 / 5], [0]]], mem_log_prob = [[0, 0]], mem_entropy = [[0, 0]]\<rparr>"
  by (simp add: observe_memory predict_memory(2) Let_def store_value_log_prob_def mem_reset_def
      mem_append_def refill_cfg_def scenario_cfg_def demo_cfg_def)


end
